theory Spec2Isabelle
  imports Complex_Main
begin

section \<open>Tensors\<close>

text \<open>
  A tensor of the autodiff library is a shape together with its elements in row-major
  (contiguous) order. Elements are real numbers: rounding, infinities and NaN of the
  floating-point type are not part of this model (HOL's \<open>x / 0 = 0\<close> stands where the
  library yields a non-finite value).
\<close>

record tensor =
  shape :: "nat list"
  data :: "real list"

definition wf_tensor :: "tensor \<Rightarrow> bool" where
  "wf_tensor t = (length (data t) = prod_list (shape t))"

text \<open>Python exceptions that the program or the library calls it makes can raise.\<close>

datatype error = RuntimeError string | ValueError string | AttributeError string

text \<open>Sequencing of fallible steps: the first exception ends the computation.\<close>

definition bind :: "'err + 'r \<Rightarrow> ('r \<Rightarrow> 'err + 's) \<Rightarrow> 'err + 's" where
  "bind r k = (case r of Inl raised \<Rightarrow> Inl raised | Inr v \<Rightarrow> k v)"

text \<open>\<^verbatim>\<open>input.view(n, m)\<close>: the same elements under a new shape of the same size.\<close>

definition view :: "tensor \<Rightarrow> nat list \<Rightarrow> error + tensor" where
  "view t sh =
     (if prod_list sh = length (data t) then Inr \<lparr>shape = sh, data = data t\<rparr>
      else Inl (RuntimeError ''shape is invalid for input size''))"

text \<open>The rows of an \<open>n \<times> m\<close> matrix stored row-major.\<close>

definition rows_of :: "nat \<Rightarrow> nat \<Rightarrow> 'a list \<Rightarrow> 'a list list" where
  "rows_of n m xs = map (\<lambda>i. take m (drop (i * m) xs)) [0..<n]"

definition dot :: "real list \<Rightarrow> real list \<Rightarrow> real" where
  "dot xs ys = sum_list (map2 (\<lambda>x y. x * y) xs ys)"

text \<open>\<^verbatim>\<open>features.t()\<close>: transpose of a tensor of at most two dimensions.\<close>

definition tensor_t :: "tensor \<Rightarrow> error + tensor" where
  "tensor_t a =
     (case shape a of
        [n, m] \<Rightarrow>
          Inr \<lparr>shape = [m, n],
               data = concat (map (\<lambda>j. map (\<lambda>r. r ! j) (rows_of n m (data a))) [0..<m])\<rparr>
      | [] \<Rightarrow> Inr a
      | [n] \<Rightarrow> Inr a
      | _ \<Rightarrow> Inl (RuntimeError ''t() expects a tensor with <= 2 dimensions''))"

text \<open>\<^verbatim>\<open>torch.mm(a, b)\<close>: matrix product of two matrices.\<close>

definition mm :: "tensor \<Rightarrow> tensor \<Rightarrow> error + tensor" where
  "mm a b =
     (case (shape a, shape b) of
        ([n, m], [m', p]) \<Rightarrow>
          if m = m' then
            Inr \<lparr>shape = [n, p],
                 data = concat (map (\<lambda>ra. map (\<lambda>j. dot ra (map (\<lambda>rb. rb ! j) (rows_of m' p (data b))))
                                             [0..<p])
                                    (rows_of n m (data a)))\<rparr>
          else Inl (RuntimeError ''mat1 and mat2 shapes cannot be multiplied'')
      | _ \<Rightarrow> Inl (RuntimeError ''self must be a matrix''))"

text \<open>\<^verbatim>\<open>gram.div(k)\<close>: every element divided by a number.\<close>

definition tensor_div :: "tensor \<Rightarrow> real \<Rightarrow> tensor" where
  "tensor_div t k = t\<lparr>data := map (\<lambda>x. x / k) (data t)\<rparr>"

section \<open>Gram matrix\<close>

text \<open>
  \<^verbatim>\<open>
  def gram_matrix(input):
      batch_size, num_features, height, width = input.size()
      features = input.view(batch_size * num_features, height * width)
      gram = torch.mm(features, features.t())
      return gram.div(batch_size * num_features * height * width)
  \<close>
  Unpacking a size that has not four entries raises \<open>ValueError\<close>.
\<close>

definition gram_matrix :: "tensor \<Rightarrow> error + tensor" where
  "gram_matrix input =
     (case shape input of
        [batch_size, num_features, height, width] \<Rightarrow>
          bind (view input [batch_size * num_features, height * width]) (\<lambda>features.
          bind (tensor_t features) (\<lambda>features_t.
          bind (mm features features_t) (\<lambda>gram.
          Inr (tensor_div gram (real (batch_size * num_features * height * width))))))
      | _ \<Rightarrow> Inl (ValueError ''not enough or too many values to unpack (expected 4)''))"

text \<open>
  The rows of \<open>F \<cdot> F\<^sup>T / k\<close> for a matrix given by its rows \<open>R\<close>; the closed form of what
  \<open>gram_matrix\<close> computes (lemma \<open>gram_matrix_rows\<close>).
\<close>

definition gram_rows :: "real list list \<Rightarrow> real \<Rightarrow> real list list" where
  "gram_rows R k = map (\<lambda>ra. map (\<lambda>j. dot ra (R ! j) / k) [0..<length R]) R"

text \<open>
  A permutation \<open>p\<close> of the \<open>height \<times> width\<close> positions applied to every channel of every
  batch entry alike: \<^verbatim>\<open>input.view(b, c, h * w)[:, :, p].view(b, c, h, w)\<close>.
\<close>

definition permute_spatial :: "nat list \<Rightarrow> tensor \<Rightarrow> tensor" where
  "permute_spatial p input =
     (case shape input of
        [b, c, h, w] \<Rightarrow>
          input\<lparr>data := concat (map (\<lambda>r. map ((!) r) p) (rows_of (b * c) (h * w) (data input)))\<rparr>
      | _ \<Rightarrow> input)"

text \<open>
  The Gram matrix as the specification words it, entry by entry: with \<open>F\<close> the
  \<open>(batch \<cdot> channels) \<times> (height \<cdot> width)\<close> reshaping of the feature map, entry \<open>(i, j)\<close> of
  \<open>F \<cdot> F\<^sup>T\<close> divided by \<open>batch \<cdot> channels \<cdot> height \<cdot> width\<close>.
\<close>

definition gram_spec :: "tensor \<Rightarrow> nat \<Rightarrow> nat \<Rightarrow> real" where
  "gram_spec input i j =
     (case shape input of
        [b, c, h, w] \<Rightarrow>
          (\<Sum>k<h * w. data input ! (i * (h * w) + k) * data input ! (j * (h * w) + k))
            / real (b * c * h * w)
      | _ \<Rightarrow> 0)"

section \<open>Broadcasting and the mean squared error of the library\<close>

text \<open>
  Two shapes are broadcast from their last dimension backwards: dimensions are compatible
  when they are equal or one of them is 1; a missing leading dimension counts as 1. The
  function works on the reversed shapes.
\<close>

fun broadcast_shape :: "nat list \<Rightarrow> nat list \<Rightarrow> nat list option" where
  "broadcast_shape [] ys = Some ys"
| "broadcast_shape (x # xs) [] = Some (x # xs)"
| "broadcast_shape (x # xs) (y # ys) =
     (if x = y \<or> y = 1 then map_option ((#) x) (broadcast_shape xs ys)
      else if x = 1 then map_option ((#) y) (broadcast_shape xs ys)
      else None)"

text \<open>
  The elements of a tensor of shape \<open>ds\<close> repeated along its dimensions of size 1 to fill
  the shape \<open>es\<close> (both of the same rank).
\<close>

fun expand :: "nat list \<Rightarrow> nat list \<Rightarrow> 'a list \<Rightarrow> 'a list" where
  "expand (d # ds) (e # es) xs =
     (if d = e then concat (map (expand ds es) (rows_of d (prod_list ds) xs))
      else concat (replicate e (expand ds es xs)))"
| "expand ds es xs = xs"

definition broadcast_tensors :: "tensor \<Rightarrow> tensor \<Rightarrow> error + tensor \<times> tensor" where
  "broadcast_tensors a b =
     (case broadcast_shape (rev (shape a)) (rev (shape b)) of
        None \<Rightarrow> Inl (RuntimeError ''The size of tensor a must match the size of tensor b'')
      | Some rsh \<Rightarrow>
          let sh = rev rsh;
              pad = (\<lambda>s. replicate (length sh - length s) 1 @ s)
          in Inr (\<lparr>shape = sh, data = expand (pad (shape a)) sh (data a)\<rparr>,
                  \<lparr>shape = sh, data = expand (pad (shape b)) sh (data b)\<rparr>))"

text \<open>An elementwise binary operation of the library, with broadcasting.\<close>

definition pointwise :: "(real \<Rightarrow> real \<Rightarrow> real) \<Rightarrow> tensor \<Rightarrow> tensor \<Rightarrow> error + tensor" where
  "pointwise f a b =
     bind (broadcast_tensors a b)
       (\<lambda>(a', b'). Inr \<lparr>shape = shape a', data = map2 f (data a') (data b')\<rparr>)"

text \<open>
  \<^verbatim>\<open>F.mse_loss(input, target)\<close>: both tensors are broadcast against each other; the result
  is the mean of the squared differences.
\<close>

definition mse_loss :: "tensor \<Rightarrow> tensor \<Rightarrow> error + real" where
  "mse_loss input target =
     bind (broadcast_tensors input target)
       (\<lambda>(a, b). Inr (sum_list (map2 (\<lambda>x y. (x - y)\<^sup>2) (data a) (data b))
                       / real (length (data a))))"

text \<open>
  The mean squared error as the specification words it, for two element lists of the
  same length.
\<close>

definition mean_squared_error :: "real list \<Rightarrow> real list \<Rightarrow> real" where
  "mean_squared_error xs ys = (\<Sum>k<length xs. (xs ! k - ys ! k)\<^sup>2) / real (length xs)"

section \<open>Loss taps\<close>

text \<open>
  \<^verbatim>\<open>
  class ContentLoss(nn.Module):
      def __init__(self, target):
          self.target = target.detach()
      def forward(self, input):
          self.loss = F.mse_loss(input, self.target)
          return input

  class StyleLoss(nn.Module):
      def __init__(self, target_feature):
          self.target = gram_matrix(target_feature).detach()
      def forward(self, input):
          G = gram_matrix(input)
          self.loss = F.mse_loss(G, self.target)
          return input
  \<close>
  An object of either class has the attribute \<open>target\<close> and, once \<open>forward\<close> has run, the
  attribute \<open>loss\<close>. \<open>forward\<close> mutates the object: the model returns the updated object
  next to the value returned. \<^verbatim>\<open>detach()\<close> concerns the gradient graph only and leaves the
  values as they are.
\<close>

datatype tap =
    ContentLoss (target: tensor) (loss: "real option")
  | StyleLoss (target: tensor) (loss: "real option")

definition ContentLoss_init :: "tensor \<Rightarrow> tap" where
  "ContentLoss_init target' = ContentLoss target' None"

definition ContentLoss_forward :: "tap \<Rightarrow> tensor \<Rightarrow> error + tap \<times> tensor" where
  "ContentLoss_forward self input =
     bind (mse_loss input (target self)) (\<lambda>l.
     Inr (ContentLoss (target self) (Some l), input))"

definition StyleLoss_init :: "tensor \<Rightarrow> error + tap" where
  "StyleLoss_init target_feature =
     bind (gram_matrix target_feature) (\<lambda>g. Inr (StyleLoss g None))"

definition StyleLoss_forward :: "tap \<Rightarrow> tensor \<Rightarrow> error + tap \<times> tensor" where
  "StyleLoss_forward self input =
     bind (gram_matrix input) (\<lambda>G.
     bind (mse_loss G (target self)) (\<lambda>l.
     Inr (StyleLoss (target self) (Some l), input)))"

text \<open>Calling a tap dispatches on its class.\<close>

definition tap_forward :: "tap \<Rightarrow> tensor \<Rightarrow> error + tap \<times> tensor" where
  "tap_forward self input =
     (case self of
        ContentLoss _ _ \<Rightarrow> ContentLoss_forward self input
      | StyleLoss _ _ \<Rightarrow> StyleLoss_forward self input)"

section \<open>Normalization\<close>

text \<open>
  \<^verbatim>\<open>
  class Normalization(nn.Module):
      def __init__(self, mean, std):
          self.mean = torch.tensor(mean).view(-1, 1, 1)
          self.std = torch.tensor(std).view(-1, 1, 1)
      def forward(self, img):
          return (img - self.mean) / self.std
  \<close>
  \<^verbatim>\<open>view(-1, 1, 1)\<close> gives the shape \<open>[n, 1, 1]\<close> to a tensor of \<open>n\<close> elements.
\<close>

record normalization =
  mean :: tensor
  std :: tensor

definition Normalization_init :: "tensor \<Rightarrow> tensor \<Rightarrow> normalization" where
  "Normalization_init mean' std' =
     \<lparr>mean = \<lparr>shape = [length (data mean'), 1, 1], data = data mean'\<rparr>,
      std = \<lparr>shape = [length (data std'), 1, 1], data = data std'\<rparr>\<rparr>"

definition Normalization_forward :: "normalization \<Rightarrow> tensor \<Rightarrow> error + tensor" where
  "Normalization_forward self img =
     bind (pointwise (-) img (mean self)) (\<lambda>centred. pointwise (/) centred (std self))"

section \<open>Layers of the feature extractor\<close>

text \<open>
  A layer of the feature extractor is an object of a library class. Convolution, pooling
  and batch normalization carry weights and are given by what their \<open>forward\<close> computes
  (a parameter of the model, which may raise); \<open>ReLU\<close> carries its \<open>inplace\<close> flag and
  computes \<open>max(x, 0)\<close> elementwise. Any other class is \<open>Other\<close> with its class name. The
  feature extractor is in evaluation mode with frozen weights: \<open>forward\<close> changes no layer.
\<close>

datatype layer =
    Conv2d "tensor \<Rightarrow> error + tensor"
  | ReLU bool
  | MaxPool2d "tensor \<Rightarrow> error + tensor"
  | BatchNorm2d "tensor \<Rightarrow> error + tensor"
  | Other string "tensor \<Rightarrow> error + tensor"

definition layer_forward :: "layer \<Rightarrow> tensor \<Rightarrow> error + tensor" where
  "layer_forward l x =
     (case l of
        Conv2d f \<Rightarrow> f x
      | ReLU _ \<Rightarrow> Inr (x\<lparr>data := map (max 0) (data x)\<rparr>)
      | MaxPool2d f \<Rightarrow> f x
      | BatchNorm2d f \<Rightarrow> f x
      | Other _ f \<Rightarrow> f x)"

definition recognized :: "layer \<Rightarrow> bool" where
  "recognized l = (case l of Other _ _ \<Rightarrow> False | _ \<Rightarrow> True)"

section \<open>The sequential model\<close>

text \<open>
  A module of the assembled model is the normalization, a layer, or a loss tap. Taps are
  objects shared between the model and the lists of losses, and \<open>forward\<close> mutates them:
  they live in a store (a list of objects, the address of an object being its index), and
  the model and the lists hold addresses. Assembly puts an address into the model or a
  list only together with the object it stores there, so the branches below for an
  address without object are never taken by the program.
\<close>

datatype module = Norm normalization | Layer layer | Tap nat

type_synonym sequential = "(string \<times> module) list"

text \<open>
  \<^verbatim>\<open>isinstance(m, ContentLoss) or isinstance(m, StyleLoss)\<close>: every tap object is of one of
  the two classes.
\<close>

definition is_loss :: "module \<Rightarrow> bool" where
  "is_loss m = (case m of Tap _ \<Rightarrow> True | _ \<Rightarrow> False)"

text \<open>
  \<^verbatim>\<open>model.add_module(name, module)\<close> assigns into an ordered dictionary: a new name is
  appended, an existing name keeps its position and gets the new module. (The call
  rejects an empty name, a name with a dot and the name of another attribute of the
  model; the names the program builds are none of these.)
\<close>

fun add_module :: "string \<Rightarrow> module \<Rightarrow> sequential \<Rightarrow> sequential" where
  "add_module name m [] = [(name, m)]"
| "add_module name m ((n, x) # rest) =
     (if n = name then (name, m) # rest else (n, x) # add_module name m rest)"

definition module_forward :: "module \<Rightarrow> tap list \<Rightarrow> tensor \<Rightarrow> error + tap list \<times> tensor" where
  "module_forward m st x =
     (case m of
        Norm nz \<Rightarrow> bind (Normalization_forward nz x) (\<lambda>y. Inr (st, y))
      | Layer l \<Rightarrow> bind (layer_forward l x) (\<lambda>y. Inr (st, y))
      | Tap a \<Rightarrow>
          if a < length st
          then bind (tap_forward (st ! a) x) (\<lambda>(t, y). Inr (st[a := t], y))
          else Inl (RuntimeError ''no such object''))"

text \<open>\<^verbatim>\<open>model(x)\<close>: the modules are applied in order, each to the output of the one before.\<close>

fun sequential_forward :: "sequential \<Rightarrow> tap list \<Rightarrow> tensor \<Rightarrow> error + tap list \<times> tensor" where
  "sequential_forward [] st x = Inr (st, x)"
| "sequential_forward ((n, m) # rest) st x =
     bind (module_forward m st x) (\<lambda>(st', y). sequential_forward rest st' y)"

section \<open>Model assembly\<close>

text \<open>\<^verbatim>\<open>'{}'.format(i)\<close> for a counter that is never negative: its decimal digits.\<close>

function str_nat :: "nat \<Rightarrow> string" where
  "str_nat n =
     (if n < 10 then [''0123456789'' ! n]
      else str_nat (n div 10) @ [''0123456789'' ! (n mod 10)])"
  by pat_completeness auto
termination
  by (relation "measure id") auto

declare str_nat.simps [simp del]

definition content_layers_default :: "string list" where
  "content_layers_default = [''conv_3'']"

definition style_layers_default :: "string list" where
  "style_layers_default = [''conv_1'', ''conv_2'', ''conv_3'', ''conv_4'', ''conv_5'']"

text \<open>
  The local state of \<open>get_style_model_and_losses\<close>: the model built so far, the two lists
  of losses (addresses of tap objects), the convolution counter \<open>i\<close> and the store of tap
  objects. \<open>evals\<close> counts the forward evaluations \<^verbatim>\<open>model(...)\<close> started so far; the program
  has no such variable, it records the effect for the properties that speak about it.
\<close>

record assembly =
  model :: sequential
  content_losses :: "nat list"
  style_losses :: "nat list"
  conv_i :: nat
  store :: "tap list"
  evals :: nat

text \<open>
  The \<open>if\<close>/\<open>elif\<close> chain over the class of a layer: the new counter, the name and the
  layer that goes into the model (a \<open>ReLU\<close> is replaced by one that is not in place).
\<close>

definition classify :: "nat \<Rightarrow> layer \<Rightarrow> error + nat \<times> string \<times> layer" where
  "classify i l =
     (case l of
        Conv2d f \<Rightarrow> Inr (i + 1, ''conv_'' @ str_nat (i + 1), l)
      | ReLU _ \<Rightarrow> Inr (i, ''relu_'' @ str_nat i, ReLU False)
      | MaxPool2d f \<Rightarrow> Inr (i, ''pool_'' @ str_nat i, l)
      | BatchNorm2d f \<Rightarrow> Inr (i, ''bn_'' @ str_nat i, l)
      | Other cls f \<Rightarrow> Inl (RuntimeError (''Unrecognized layer: '' @ cls)))"

text \<open>
  \<^verbatim>\<open>
  if name in content_layers:
      target = model(content_img).detach()
      content_loss = ContentLoss(target)
      model.add_module("content_loss_{}".format(i), content_loss)
      content_losses.append(content_loss)
  \<close>
  An exception comes with the state in which it was raised.
\<close>

definition add_content_loss :: "tensor \<Rightarrow> assembly \<Rightarrow> error \<times> assembly + assembly" where
  "add_content_loss content_img s =
     (let s1 = s\<lparr>evals := evals s + 1\<rparr> in
      case sequential_forward (model s1) (store s1) content_img of
        Inl e \<Rightarrow> Inl (e, s1)
      | Inr (st, target') \<Rightarrow>
          let content_loss = ContentLoss_init target';
              a = length st
          in Inr (s1\<lparr>store := st @ [content_loss],
                     model := add_module (''content_loss_'' @ str_nat (conv_i s1)) (Tap a) (model s1),
                     content_losses := content_losses s1 @ [a]\<rparr>))"

text \<open>
  \<^verbatim>\<open>
  if name in style_layers:
      target_feature = model(style_img).detach()
      style_loss = StyleLoss(target_feature)
      model.add_module("style_loss_{}".format(i), style_loss)
      style_losses.append(style_loss)
  \<close>
\<close>

definition add_style_loss :: "tensor \<Rightarrow> assembly \<Rightarrow> error \<times> assembly + assembly" where
  "add_style_loss style_img s =
     (let s1 = s\<lparr>evals := evals s + 1\<rparr> in
      case sequential_forward (model s1) (store s1) style_img of
        Inl e \<Rightarrow> Inl (e, s1)
      | Inr (st, target_feature) \<Rightarrow>
          (case StyleLoss_init target_feature of
             Inl e \<Rightarrow> Inl (e, s1\<lparr>store := st\<rparr>)
           | Inr style_loss \<Rightarrow>
               let a = length st
               in Inr (s1\<lparr>store := st @ [style_loss],
                          model := add_module (''style_loss_'' @ str_nat (conv_i s1)) (Tap a) (model s1),
                          style_losses := style_losses s1 @ [a]\<rparr>)))"

text \<open>The body of the loop over \<^verbatim>\<open>cnn.children()\<close>, for one layer.\<close>

definition walk_step ::
  "tensor \<Rightarrow> tensor \<Rightarrow> string list \<Rightarrow> string list \<Rightarrow> layer \<Rightarrow> assembly
     \<Rightarrow> error \<times> assembly + assembly" where
  "walk_step style_img content_img content_layers style_layers l s =
     (case classify (conv_i s) l of
        Inl e \<Rightarrow> Inl (e, s)
      | Inr (i, name, l') \<Rightarrow>
          let s1 = s\<lparr>conv_i := i, model := add_module name (Layer l') (model s)\<rparr> in
          bind (if name \<in> set content_layers then add_content_loss content_img s1 else Inr s1)
            (\<lambda>s2. if name \<in> set style_layers then add_style_loss style_img s2 else Inr s2))"

fun walk ::
  "tensor \<Rightarrow> tensor \<Rightarrow> string list \<Rightarrow> string list \<Rightarrow> layer list \<Rightarrow> assembly
     \<Rightarrow> error \<times> assembly + assembly" where
  "walk style_img content_img content_layers style_layers [] s = Inr s"
| "walk style_img content_img content_layers style_layers (l # ls) s =
     bind (walk_step style_img content_img content_layers style_layers l s)
       (walk style_img content_img content_layers style_layers ls)"

text \<open>
  \<^verbatim>\<open>
  for i in range(len(model) - 1, -1, -1):
      if isinstance(model[i], ContentLoss) or isinstance(model[i], StyleLoss):
          break
  \<close>
  started at index \<open>k\<close>: the value of \<open>i\<close> when the loop ends. At index 0 the loop ends
  whether or not it breaks.
\<close>

fun trim_scan :: "sequential \<Rightarrow> nat \<Rightarrow> nat" where
  "trim_scan m 0 = 0"
| "trim_scan m (Suc k) = (if is_loss (snd (m ! Suc k)) then Suc k else trim_scan m k)"

text \<open>
  \<^verbatim>\<open>
  normalization = Normalization(mean, std).to(device)
  content_losses = []
  style_losses = []
  model = nn.Sequential(normalization)
  i = 0  # increment every time we see a conv
  \<close>
  A module given to the constructor of \<open>Sequential\<close> gets its position as its name.
\<close>

definition assembly_init :: "tensor \<Rightarrow> tensor \<Rightarrow> assembly" where
  "assembly_init mean' std' =
     (let normalization = Normalization_init mean' std'
      in \<lparr>model = [(''0'', Norm normalization)], content_losses = [], style_losses = [],
          conv_i = 0, store = [], evals = 0\<rparr>)"

text \<open>
  \<^verbatim>\<open>
  # Trim off the layers after the last content and style losses
  for i in range(len(model) - 1, -1, -1):
      ...
  model = model[:(i + 1)]
  \<close>
  A model without modules would leave \<open>i\<close> as the first loop left it.
\<close>

definition trim :: "assembly \<Rightarrow> assembly" where
  "trim s =
     (let i = (if model s = [] then conv_i s
               else trim_scan (model s) (length (model s) - 1))
      in s\<lparr>model := take (i + 1) (model s)\<rparr>)"

text \<open>
  \<^verbatim>\<open>
  def get_style_model_and_losses(cnn, mean, std, style_img, content_img,
                                 content_layers=content_layers, style_layers=style_layers):
      ...
      return model, style_losses, content_losses
  \<close>
  The value returned is the final state: its \<open>model\<close>, \<open>style_losses\<close> and \<open>content_losses\<close>
  are the three values the function returns, its \<open>store\<close> holds the objects they refer to.
\<close>

definition get_style_model_and_losses ::
  "layer list \<Rightarrow> tensor \<Rightarrow> tensor \<Rightarrow> tensor \<Rightarrow> tensor \<Rightarrow> string list \<Rightarrow> string list
     \<Rightarrow> error \<times> assembly + assembly" where
  "get_style_model_and_losses cnn mean' std' style_img content_img content_layers style_layers =
     bind (walk style_img content_img content_layers style_layers cnn (assembly_init mean' std'))
       (\<lambda>s. Inr (trim s))"

text \<open>The names that the walk gives to the layers, up to the first layer it rejects.\<close>

fun layer_names :: "nat \<Rightarrow> layer list \<Rightarrow> string list" where
  "layer_names i [] = []"
| "layer_names i (l # ls) =
     (case classify i l of
        Inl e \<Rightarrow> []
      | Inr (i', name, l') \<Rightarrow> name # layer_names i' ls)"

section \<open>The optimization loop\<close>

text \<open>
  The optimizer is the library's L-BFGS. One call \<^verbatim>\<open>optimizer.step(closure)\<close> evaluates the
  closure, then repeatedly updates the parameters (the pixels of the working image) and
  evaluates the closure again, until it decides to stop or has used \<open>max_eval\<close>
  evaluations. What it decides is a parameter of the model: \<open>advance\<close> maps its memory,
  the loss the closure returned and the current pixels to its new memory, the new pixels
  and whether it evaluates the closure once more. Gradients are computed by the library
  from the evaluation it has just made, so they are part of what \<open>advance\<close> stands for.
\<close>

record 'm lbfgs =
  init_memory :: 'm
  advance :: "'m \<Rightarrow> real \<Rightarrow> tensor \<Rightarrow> 'm \<times> tensor \<times> bool"
  max_eval :: nat

text \<open>What \<^verbatim>\<open>print\<close> has written.\<close>

datatype line = OptimizingLine | RunLine int | LossLine real real | BlankLine

text \<open>
  The state that the loop of \<open>run_style_transfer\<close> and its closure change: the working
  image, the counter \<^verbatim>\<open>run[0]\<close>, the tap objects, the optimizer's memory and the output
  printed. \<open>steps\<close> counts the calls of \<^verbatim>\<open>optimizer.step\<close> that have returned; the program
  has no such variable.
\<close>

record 'm run_state =
  input_img :: tensor
  run :: int
  taps :: "tap list"
  memory :: 'm
  printed :: "line list"
  steps :: nat

text \<open>\<^verbatim>\<open>input_img.data.clamp_(0, 1)\<close>\<close>

definition clamp :: "real \<Rightarrow> real \<Rightarrow> tensor \<Rightarrow> tensor" where
  "clamp lo hi t = t\<lparr>data := map (\<lambda>x. min (max x lo) hi) (data t)\<rparr>"

text \<open>
  A score of the closure is the Python number it starts as, or a tensor of one element
  once a loss has been added to it.
\<close>

datatype score = Number real | Scalar real

definition score_value :: "score \<Rightarrow> real" where
  "score_value sc = (case sc of Number v \<Rightarrow> v | Scalar v \<Rightarrow> v)"

text \<open>
  \<^verbatim>\<open>for sl in style_losses: style_score += sl.loss\<close>, and the same for the content losses.
  Reading \<open>loss\<close> from a tap whose \<open>forward\<close> has never run raises \<open>AttributeError\<close>.
\<close>

fun sum_losses :: "tap list \<Rightarrow> nat list \<Rightarrow> score \<Rightarrow> error + score" where
  "sum_losses st [] acc = Inr acc"
| "sum_losses st (a # as) acc =
     (if a < length st then
        (case loss (st ! a) of
           None \<Rightarrow> Inl (AttributeError ''loss'')
         | Some l \<Rightarrow> sum_losses st as (Scalar (score_value acc + l)))
      else Inl (RuntimeError ''no such object''))"

definition scale :: "score \<Rightarrow> real \<Rightarrow> score" where
  "scale sc w = (case sc of Number v \<Rightarrow> Number (v * w) | Scalar v \<Rightarrow> Scalar (v * w))"

definition plus_score :: "score \<Rightarrow> score \<Rightarrow> score" where
  "plus_score a b =
     (case (a, b) of
        (Number x, Number y) \<Rightarrow> Number (x + y)
      | _ \<Rightarrow> Scalar (score_value a + score_value b))"

text \<open>
  \<^verbatim>\<open>
  def closure():
      input_img.data.clamp_(0, 1)
      optimizer.zero_grad()
      model(input_img)
      style_score = 0
      content_score = 0
      for sl in style_losses:
          style_score += sl.loss
      for cl in content_losses:
          content_score += cl.loss
      style_score *= style_weight
      content_score *= content_weight
      loss = style_score + content_score
      loss.backward()
      run[0] += 1
      if run[0] % 50 == 0:
          print("run {}:".format(run))
          print('Style Loss : {:4f} Content Loss: {:4f}'.format(
              style_score.item(), content_score.item()))
          print()
      return style_score + content_score
  \<close>
  \<open>backward\<close> and \<open>item\<close> are methods of tensors: on a Python number they raise
  \<open>AttributeError\<close>. A loss that is a tensor contains the loss of a tap of the model, which
  the evaluation just made has computed from the working image, so \<open>backward\<close> finds its
  gradient graph. The gradients that \<open>zero_grad\<close> clears and \<open>backward\<close> computes are not
  part of the state.
\<close>

definition closure ::
  "assembly \<Rightarrow> real \<Rightarrow> real \<Rightarrow> 'm run_state \<Rightarrow> error \<times> 'm run_state + real \<times> 'm run_state" where
  "closure asm style_weight content_weight s =
     (let s1 = s\<lparr>input_img := clamp 0 1 (input_img s)\<rparr> in
      case sequential_forward (model asm) (taps s1) (input_img s1) of
        Inl e \<Rightarrow> Inl (e, s1)
      | Inr (st, out) \<Rightarrow>
          let s2 = s1\<lparr>taps := st\<rparr> in
          (case bind (sum_losses st (style_losses asm) (Number 0)) (\<lambda>ss.
                bind (sum_losses st (content_losses asm) (Number 0)) (\<lambda>cs. Inr (ss, cs))) of
             Inl e \<Rightarrow> Inl (e, s2)
           | Inr (ss, cs) \<Rightarrow>
               let style_score = scale ss style_weight;
                   content_score = scale cs content_weight;
                   loss' = plus_score style_score content_score
               in (case loss' of
                     Number _ \<Rightarrow> Inl (AttributeError ''backward'', s2)
                   | Scalar v \<Rightarrow>
                       let s3 = s2\<lparr>run := run s2 + 1\<rparr> in
                       if run s3 mod 50 = 0 then
                         (case (style_score, content_score) of
                            (Scalar a, Scalar b) \<Rightarrow>
                              Inr (v, s3\<lparr>printed := printed s3 @
                                          [RunLine (run s3), LossLine a b, BlankLine]\<rparr>)
                          | _ \<Rightarrow>
                              Inl (AttributeError ''item'',
                                   s3\<lparr>printed := printed s3 @ [RunLine (run s3)]\<rparr>))
                       else Inr (v, s3))))"

text \<open>
  \<^verbatim>\<open>optimizer.step(closure)\<close>, after an evaluation of the closure that returned the loss
  \<open>l\<close>, with \<open>fuel\<close> evaluations left.
\<close>

fun lbfgs_after_eval ::
  "'m lbfgs \<Rightarrow> ('m run_state \<Rightarrow> error \<times> 'm run_state + real \<times> 'm run_state) \<Rightarrow> nat \<Rightarrow> real
     \<Rightarrow> 'm run_state \<Rightarrow> error \<times> 'm run_state + 'm run_state" where
  "lbfgs_after_eval opt cl 0 l s =
     (case advance opt (memory s) l (input_img s) of
        (m, img, again) \<Rightarrow> Inr (s\<lparr>memory := m, input_img := img\<rparr>))"
| "lbfgs_after_eval opt cl (Suc fuel) l s =
     (case advance opt (memory s) l (input_img s) of
        (m, img, again) \<Rightarrow>
          let s' = s\<lparr>memory := m, input_img := img\<rparr> in
          if again then bind (cl s') (\<lambda>(l', s''). lbfgs_after_eval opt cl fuel l' s'')
          else Inr s')"

definition lbfgs_step ::
  "'m lbfgs \<Rightarrow> ('m run_state \<Rightarrow> error \<times> 'm run_state + real \<times> 'm run_state)
     \<Rightarrow> 'm run_state \<Rightarrow> error \<times> 'm run_state + 'm run_state" where
  "lbfgs_step opt cl s =
     bind (cl s) (\<lambda>(l, s1). lbfgs_after_eval opt cl (max_eval opt - 1) l s1)"

text \<open>
  \<^verbatim>\<open>
  run = [0]
  while run[0] <= num_steps:
      def closure(): ...
      optimizer.step(closure)
  \<close>
\<close>

function optimize ::
  "'m lbfgs \<Rightarrow> assembly \<Rightarrow> real \<Rightarrow> real \<Rightarrow> int \<Rightarrow> 'm run_state
     \<Rightarrow> error \<times> 'm run_state + 'm run_state" where
  "optimize opt asm style_weight content_weight num_steps s =
     (if run s \<le> num_steps then
        (case lbfgs_step opt (closure asm style_weight content_weight) s of
           Inl es \<Rightarrow> Inl es
         | Inr s' \<Rightarrow>
             optimize opt asm style_weight content_weight num_steps (s'\<lparr>steps := steps s' + 1\<rparr>))
      else Inr s)"
  by pat_completeness auto

lemma closure_run:
  "closure asm style_weight content_weight s = Inr (l, s') \<Longrightarrow> run s' = run s + 1"
  by (auto simp: closure_def Let_def split: sum.splits prod.splits score.splits if_splits)

lemma lbfgs_after_eval_run:
  "(\<And>s l s'. cl s = Inr (l, s') \<Longrightarrow> run s < run s') \<Longrightarrow>
   lbfgs_after_eval opt cl fuel l s = Inr s' \<Longrightarrow> run s \<le> run s'"
proof (induction fuel arbitrary: l s)
  case 0
  then show ?case by (auto split: prod.splits)
next
  case (Suc fuel)
  obtain m img again where adv: "advance opt (memory s) l (input_img s) = (m, img, again)"
    by (cases "advance opt (memory s) l (input_img s)") auto
  show ?case
  proof (cases again)
    case False
    with Suc.prems(2) adv show ?thesis by auto
  next
    case True
    with Suc.prems(2) adv obtain l1 s1 where
      c: "cl (s\<lparr>memory := m, input_img := img\<rparr>) = Inr (l1, s1)"
      and r: "lbfgs_after_eval opt cl fuel l1 s1 = Inr s'"
      by (auto simp: bind_def split: sum.splits)
    from Suc.prems(1) [OF c] have "run s < run s1" by simp
    moreover from Suc.IH [OF Suc.prems(1) r] have "run s1 \<le> run s'" by simp
    ultimately show ?thesis by simp
  qed
qed

lemma lbfgs_step_run:
  assumes "lbfgs_step opt (closure asm style_weight content_weight) s = Inr s'"
  shows "run s < run s'"
proof -
  from assms obtain l s1 where
    c: "closure asm style_weight content_weight s = Inr (l, s1)"
    and r: "lbfgs_after_eval opt (closure asm style_weight content_weight) (max_eval opt - 1) l s1 = Inr s'"
    by (auto simp: lbfgs_step_def bind_def split: sum.splits)
  have "run s1 \<le> run s'"
    using r by (rule lbfgs_after_eval_run [rotated]) (simp add: closure_run)
  with closure_run [OF c] show ?thesis by simp
qed

termination optimize
proof (relation "measure (\<lambda>(opt, asm, style_weight, content_weight, num_steps, s). nat (num_steps + 1 - run s))")
  show "wf (measure (\<lambda>(opt, asm, style_weight, content_weight, num_steps, s). nat (num_steps + 1 - run s)))"
    by simp
next
  fix opt :: "'m lbfgs" and asm style_weight content_weight num_steps and s x2 :: "'m run_state"
  assume "run s \<le> num_steps"
    and "lbfgs_step opt (closure asm style_weight content_weight) s = Inr x2"
  then show "((opt, asm, style_weight, content_weight, num_steps, x2\<lparr>steps := steps x2 + 1\<rparr>),
              (opt, asm, style_weight, content_weight, num_steps, s))
             \<in> measure (\<lambda>(opt, asm, style_weight, content_weight, num_steps, s). nat (num_steps + 1 - run s))"
    using lbfgs_step_run [of opt asm style_weight content_weight s x2] by simp
qed

declare optimize.simps [simp del]

text \<open>
  \<^verbatim>\<open>
  def run_style_transfer(cnn, mean, std, content_img, style_img, input_img, num_steps=100,
                         style_weight=10000, content_weight=0.001):
      model, style_losses, content_losses = get_style_model_and_losses(cnn, mean, std, style_img, content_img)
      optimizer = get_input_optimizer(input_img)
      print('Optimizing..')
      run = [0]
      while run[0] <= num_steps:
          ...
      input_img.data.clamp_(0, 1)
      return input_img
  \<close>
  The optimizer that \<open>get_input_optimizer\<close> constructs is the parameter \<open>opt\<close>.
\<close>

definition num_steps_default :: int where
  "num_steps_default = 100"

definition style_weight_default :: real where
  "style_weight_default = 10000"

definition content_weight_default :: real where
  "content_weight_default = 1 / 1000"

text \<open>The state in which the loop starts.\<close>

definition run_state_init :: "'m lbfgs \<Rightarrow> assembly \<Rightarrow> tensor \<Rightarrow> 'm run_state" where
  "run_state_init opt asm input_img' =
     \<lparr>input_img = input_img', run = 0, taps = store asm,
      memory = init_memory opt, printed = [OptimizingLine], steps = 0\<rparr>"

definition run_style_transfer ::
  "'m lbfgs \<Rightarrow> layer list \<Rightarrow> tensor \<Rightarrow> tensor \<Rightarrow> tensor \<Rightarrow> tensor \<Rightarrow> tensor \<Rightarrow> int \<Rightarrow> real \<Rightarrow> real
     \<Rightarrow> error + tensor" where
  "run_style_transfer opt cnn mean' std' content_img style_img input_img' num_steps
       style_weight content_weight =
     (case get_style_model_and_losses cnn mean' std' style_img content_img
             content_layers_default style_layers_default of
        Inl (e, _) \<Rightarrow> Inl e
      | Inr asm \<Rightarrow>
          (case optimize opt asm style_weight content_weight num_steps
                  (run_state_init opt asm input_img') of
             Inl (e, _) \<Rightarrow> Inl e
           | Inr s \<Rightarrow> Inr (clamp 0 1 (input_img s))))"

section \<open>Example inputs\<close>

text \<open>
  Small inputs on which the program is run below: statistics for one channel, two
  one-channel images of different resolution, a convolution that returns its input (a
  \<open>1 \<times> 1\<close> kernel of weight 1 without bias), an optimizer that moves every pixel \<open>x\<close> to
  \<open>3x - 1\<close> after one evaluation of the closure, and an optimizer that evaluates the
  closure twice in every step and leaves the pixels alone.
\<close>

abbreviation half_stats :: tensor where
  "half_stats \<equiv> \<lparr>shape = [1], data = [1 / 2]\<rparr>"

abbreviation wide_img :: tensor where
  "wide_img \<equiv> \<lparr>shape = [1, 1, 1, 2], data = [1 / 4, 3 / 4]\<rparr>"

abbreviation square_img :: tensor where
  "square_img \<equiv> \<lparr>shape = [1, 1, 2, 2], data = [0, 1 / 2, 1, 1 / 4]\<rparr>"

abbreviation identity_conv :: layer where
  "identity_conv \<equiv> Conv2d Inr"

abbreviation stretching_optimizer :: "unit lbfgs" where
  "stretching_optimizer \<equiv>
     \<lparr>init_memory = (),
      advance = (\<lambda>m l img. (m, img\<lparr>data := map (\<lambda>x. 3 * x - 1) (data img)\<rparr>, False)),
      max_eval = 25\<rparr>"

abbreviation two_evaluation_optimizer :: "bool lbfgs" where
  "two_evaluation_optimizer \<equiv>
     \<lparr>init_memory = False, advance = (\<lambda>m l img. (\<not> m, img, \<not> m)), max_eval = 25\<rparr>"

section \<open>Predicates used in the proofs\<close>

text \<open>The names under which loss taps are added to the model.\<close>

definition tap_name :: "string \<Rightarrow> bool" where
  "tap_name n = (\<exists>k. n = ''content_loss_'' @ k \<or> n = ''style_loss_'' @ k)"

text \<open>
  An invariant of the walk: the model is not empty, it holds a tap as soon as one of the
  two lists of losses is not empty, and its taps are the modules with the name of a tap.
\<close>

definition tapped :: "assembly \<Rightarrow> bool" where
  "tapped s =
     (model s \<noteq> [] \<and>
      (style_losses s \<noteq> [] \<or> content_losses s \<noteq> [] \<longrightarrow> (\<exists>x\<in>set (model s). is_loss (snd x))) \<and>
      (\<forall>x\<in>set (model s). is_loss (snd x) \<longrightarrow> tap_name (fst x)))"

text \<open>
  The state of a walk that has added no tap: the model starts with the normalization and
  holds no tap, nothing has been evaluated.
\<close>

definition untapped :: "normalization \<Rightarrow> assembly \<Rightarrow> bool" where
  "untapped nz s =
     (content_losses s = [] \<and> style_losses s = [] \<and> evals s = 0 \<and> store s = [] \<and>
      model s \<noteq> [] \<and> hd (model s) = (''0'', Norm nz) \<and>
      (\<forall>x\<in>set (model s). \<not> is_loss (snd x)))"

text \<open>The state in which a computation ended, whether it returned or raised.\<close>

definition outcome_state :: "error \<times> 's + 's \<Rightarrow> 's" where
  "outcome_state r = (case r of Inl (e, s) \<Rightarrow> s | Inr s \<Rightarrow> s)"

section \<open>Properties of the Gram matrix\<close>

lemma length_rows_of [simp]: "length (rows_of n m xs) = n"
  by (simp add: rows_of_def)

lemma rows_of_nth: "i < n \<Longrightarrow> rows_of n m xs ! i = take m (drop (i * m) xs)"
  by (simp add: rows_of_def)

lemma rows_of_row_length:
  "n * m \<le> length xs \<Longrightarrow> r \<in> set (rows_of n m xs) \<Longrightarrow> length r = m"
proof -
  assume len: "n * m \<le> length xs" and "r \<in> set (rows_of n m xs)"
  then obtain i where i: "i < n" and r: "r = take m (drop (i * m) xs)"
    by (auto simp: rows_of_def)
  from i have "Suc i * m \<le> n * m" by (intro mult_le_mono1) simp
  with len have "i * m + m \<le> length xs" by simp
  with r show ?thesis by simp
qed

lemma rows_of_Suc: "rows_of (Suc n) m xs = take m xs # rows_of n m (drop m xs)"
  unfolding rows_of_def map_upt_Suc by (simp add: add.commute)

lemma rows_of_concat:
  "length rs = n \<Longrightarrow> \<forall>r\<in>set rs. length r = m \<Longrightarrow> rows_of n m (concat rs) = rs"
proof (induction rs arbitrary: n)
  case Nil
  then show ?case by (simp add: rows_of_def)
next
  case (Cons r rs)
  then obtain k where n: "n = Suc k" and k: "length rs = k" by auto
  have lr: "length r = m" using Cons.prems by simp
  have IH: "rows_of k m (concat rs) = rs" using Cons k by simp
  have "rows_of (Suc k) m (r @ concat rs) = r # rows_of k m (concat rs)"
    using lr by (simp add: rows_of_Suc)
  then show ?case using IH n by simp
qed

lemma concat_rows_of:
  "length xs = n * m \<Longrightarrow> concat (rows_of n m xs) = xs"
proof (induction n arbitrary: xs)
  case 0
  then show ?case by (simp add: rows_of_def)
next
  case (Suc n)
  have "rows_of (Suc n) m xs = take m xs # rows_of n m (drop m xs)"
    by (rule rows_of_Suc)
  moreover have "concat (rows_of n m (drop m xs)) = drop m xs"
    using Suc by simp
  ultimately show ?case by simp
qed

lemma dot_commute: "dot xs ys = dot ys xs"
proof -
  have "map2 (\<lambda>x y. x * y) xs ys = map2 (\<lambda>x y. x * y) ys xs"
    by (induction xs arbitrary: ys) (auto simp: mult.commute split: list.splits, case_tac ys, auto)
  then show ?thesis by (simp add: dot_def)
qed

lemma column_of_transposed:
  assumes "\<forall>r\<in>set R. length r = m" and "j < length R"
  shows "map (\<lambda>rb. rb ! j) (map (\<lambda>k. map (\<lambda>r. r ! k) R) [0..<m]) = R ! j"
proof -
  have "length (R ! j) = m" using assms by simp
  then show ?thesis using assms(2)
    by (simp add: list_eq_iff_nth_eq)
qed

lemma tensor_t_matrix:
  "shape a = [n, m] \<Longrightarrow>
   tensor_t a = Inr \<lparr>shape = [m, n],
     data = concat (map (\<lambda>j. map (\<lambda>r. r ! j) (rows_of n m (data a))) [0..<m])\<rparr>"
  by (simp add: tensor_t_def)

lemma mm_self_transposed:
  assumes sh: "shape f = [n, m]" and len: "length (data f) = n * m"
  shows "bind (tensor_t f) (mm f) =
         Inr \<lparr>shape = [n, n], data = concat (gram_rows (rows_of n m (data f)) 1)\<rparr>"
proof -
  let ?R = "rows_of n m (data f)"
  let ?ft = "\<lparr>shape = [m, n], data = concat (map (\<lambda>j. map (\<lambda>r. r ! j) ?R) [0..<m])\<rparr>"
  have rl: "\<forall>r\<in>set ?R. length r = m"
    using len rows_of_row_length [of n m "data f"] by simp
  have rows_t: "rows_of m n (data ?ft) = map (\<lambda>j. map (\<lambda>r. r ! j) ?R) [0..<m]"
    by (simp add: rows_of_concat)
  have col: "\<And>j. j < n \<Longrightarrow> map (\<lambda>rb. rb ! j) (rows_of m n (data ?ft)) = ?R ! j"
    unfolding rows_t using column_of_transposed [OF rl] by simp
  have "mm f ?ft = Inr \<lparr>shape = [n, n],
           data = concat (map (\<lambda>ra. map (\<lambda>j. dot ra (map (\<lambda>rb. rb ! j) (rows_of m n (data ?ft)))) [0..<n]) ?R)\<rparr>"
    using sh by (simp add: mm_def)
  also have "(map (\<lambda>ra. map (\<lambda>j. dot ra (map (\<lambda>rb. rb ! j) (rows_of m n (data ?ft)))) [0..<n]) ?R)
      = gram_rows ?R 1"
    unfolding gram_rows_def using col by simp
  finally show ?thesis
    using sh by (simp add: bind_def tensor_t_matrix)
qed

lemma gram_matrix_rows:
  assumes sh: "shape input = [b, c, h, w]" and len: "length (data input) = b * c * h * w"
  shows "gram_matrix input =
         Inr \<lparr>shape = [b * c, b * c],
              data = concat (gram_rows (rows_of (b * c) (h * w) (data input)) (real (b * c * h * w)))\<rparr>"
proof -
  let ?f = "\<lparr>shape = [b * c, h * w], data = data input\<rparr>"
  have v: "view input [b * c, h * w] = Inr ?f"
    using len by (simp add: view_def mult.assoc)
  have m: "bind (tensor_t ?f) (mm ?f) =
         Inr \<lparr>shape = [b * c, b * c], data = concat (gram_rows (rows_of (b * c) (h * w) (data input)) 1)\<rparr>"
    using mm_self_transposed [of ?f "b * c" "h * w"] len by (simp add: mult.assoc)
  have d: "map (\<lambda>x. x / k) (concat (gram_rows R 1)) = concat (gram_rows R k)" for R k
    by (simp add: gram_rows_def map_concat comp_def)
  show ?thesis
    using sh v m by (auto simp add: gram_matrix_def bind_def tensor_div_def d split: sum.splits)
qed

lemma gram_matrix_bad_length:
  assumes sh: "shape input = [b, c, h, w]" and len: "length (data input) \<noteq> b * c * h * w"
  shows "gram_matrix input = Inl (RuntimeError ''shape is invalid for input size'')"
  using assms by (simp add: gram_matrix_def bind_def view_def mult.assoc)

lemma length_gram_rows [simp]: "length (gram_rows R k) = length R"
  by (simp add: gram_rows_def)

lemma gram_rows_nth:
  "i < length R \<Longrightarrow> gram_rows R k ! i = map (\<lambda>j. dot (R ! i) (R ! j) / k) [0..<length R]"
  by (simp add: gram_rows_def)

lemma gram_rows_symmetric:
  "map (\<lambda>j. map (\<lambda>r. r ! j) (gram_rows R k)) [0..<length R] = gram_rows R k"
proof (rule nth_equalityI)
  show "length (map (\<lambda>j. map (\<lambda>r. r ! j) (gram_rows R k)) [0..<length R]) = length (gram_rows R k)"
    by simp
next
  fix j assume "j < length (map (\<lambda>j. map (\<lambda>r. r ! j) (gram_rows R k)) [0..<length R])"
  then have j: "j < length R" by simp
  have "map (\<lambda>r. r ! j) (gram_rows R k) = gram_rows R k ! j"
  proof (rule nth_equalityI)
    show "length (map (\<lambda>r. r ! j) (gram_rows R k)) = length (gram_rows R k ! j)"
      using j by (simp add: gram_rows_nth)
  next
    fix i assume "i < length (map (\<lambda>r. r ! j) (gram_rows R k))"
    then have i: "i < length R" by simp
    have "dot (R ! i) (R ! j) = dot (R ! j) (R ! i)" by (rule dot_commute)
    then show "map (\<lambda>r. r ! j) (gram_rows R k) ! i = gram_rows R k ! j ! i"
      using i j by (simp add: gram_rows_nth)
  qed
  then show "map (\<lambda>j. map (\<lambda>r. r ! j) (gram_rows R k)) [0..<length R] ! j = gram_rows R k ! j"
    using j by simp
qed

lemma tensor_t_gram:
  assumes "length R = n"
  shows "tensor_t \<lparr>shape = [n, n], data = concat (gram_rows R k)\<rparr> =
         Inr \<lparr>shape = [n, n], data = concat (gram_rows R k)\<rparr>"
proof -
  have rows: "rows_of n n (concat (gram_rows R k)) = gram_rows R k"
    by (rule rows_of_concat) (auto simp: gram_rows_def assms)
  show ?thesis
    using gram_rows_symmetric [of R k] assms by (simp add: tensor_t_def rows)
qed

text \<open>
  Claim C1. Whatever tensor \<open>gram_matrix\<close> is given, the matrix it returns is a matrix
  (two dimensions) that equals its own transpose. Over the reals the equality is exact.
\<close>

theorem gram_matrix_symmetric:
  "gram_matrix input = Inr G \<Longrightarrow> length (shape G) = 2 \<and> tensor_t G = Inr G"
proof -
  assume g: "gram_matrix input = Inr G"
  then obtain b c h w where sh: "shape input = [b, c, h, w]"
    by (auto simp: gram_matrix_def split: list.splits)
  have len: "length (data input) = b * c * h * w"
    using g gram_matrix_bad_length [OF sh] by auto
  have G: "G = \<lparr>shape = [b * c, b * c],
         data = concat (gram_rows (rows_of (b * c) (h * w) (data input)) (real (b * c * h * w)))\<rparr>"
    using g gram_matrix_rows [OF sh len] by simp
  have "tensor_t G = Inr G"
    unfolding G by (rule tensor_t_gram) simp
  then show ?thesis by (simp add: G)
qed

theorem gram_matrix_symmetric_witness:
  "gram_matrix \<lparr>shape = [1, 2, 1, 2], data = [1, 2, 3, 4]\<rparr>
     = Inr \<lparr>shape = [2, 2], data = [5 / 4, 11 / 4, 11 / 4, 25 / 4]\<rparr> \<and>
   length (shape \<lparr>shape = [2, 2], data = [5 / 4, 11 / 4, 11 / 4, 25 / 4 :: real]\<rparr>) = 2 \<and>
   tensor_t \<lparr>shape = [2, 2], data = [5 / 4, 11 / 4, 11 / 4, 25 / 4]\<rparr>
     = Inr \<lparr>shape = [2, 2], data = [5 / 4, 11 / 4, 11 / 4, 25 / 4]\<rparr>"
proof -
  have g: "gram_matrix \<lparr>shape = [1, 2, 1, 2], data = [1, 2, 3, 4]\<rparr>
     = Inr \<lparr>shape = [2, 2], data = [5 / 4, 11 / 4, 11 / 4, 25 / 4]\<rparr>"
    by code_simp
  show ?thesis using g gram_matrix_symmetric [OF g] by simp
qed

lemma nth_concat_uniform:
  "\<forall>r\<in>set rs. length r = m \<Longrightarrow> i < length rs \<Longrightarrow> j < m \<Longrightarrow> concat rs ! (i * m + j) = rs ! i ! j"
proof (induction rs arbitrary: i)
  case Nil
  then show ?case by simp
next
  case (Cons r rs)
  show ?case
  proof (cases i)
    case 0
    then show ?thesis using Cons.prems by (simp add: nth_append)
  next
    case (Suc i')
    have "concat rs ! (i' * m + j) = rs ! i' ! j"
      using Cons Suc by simp
    moreover have "(r @ concat rs) ! (Suc i' * m + j) = concat rs ! (i' * m + j)"
      using Cons.prems by (simp add: nth_append)
    ultimately show ?thesis using Suc by simp
  qed
qed

lemma dot_sum:
  assumes "length xs = m" and "length ys = m"
  shows "dot xs ys = (\<Sum>k<m. xs ! k * ys ! k)"
proof -
  have "dot xs ys = (\<Sum>k = 0..<length (map2 (\<lambda>x y. x * y) xs ys). map2 (\<lambda>x y. x * y) xs ys ! k)"
    unfolding dot_def by (rule sum_list_sum_nth)
  also have "\<dots> = (\<Sum>k = 0..<m. xs ! k * ys ! k)"
    using assms by (intro sum.cong) auto
  finally show ?thesis by (simp add: lessThan_atLeast0)
qed

lemma dot_permuted:
  assumes "length xs = m" and "length ys = m" and "distinct p" and "set p = {..<m}"
  shows "dot (map ((!) xs) p) (map ((!) ys) p) = dot xs ys"
proof -
  have "map2 (\<lambda>x y. x * y) (map ((!) xs) p) (map ((!) ys) p) = map (\<lambda>k. xs ! k * ys ! k) p"
    by (induction p) auto
  then have "dot (map ((!) xs) p) (map ((!) ys) p) = sum_list (map (\<lambda>k. xs ! k * ys ! k) p)"
    by (simp add: dot_def)
  also have "\<dots> = (\<Sum>k\<in>set p. xs ! k * ys ! k)"
    using assms(3) by (simp add: sum_list_distinct_conv_sum_set)
  also have "\<dots> = dot xs ys"
    using assms by (simp add: dot_sum)
  finally show ?thesis .
qed

lemma rows_of_nth_nth:
  assumes "length xs = n * m" and "i < n" and "k < m"
  shows "rows_of n m xs ! i ! k = xs ! (i * m + k)"
proof -
  from assms(2) have "Suc i * m \<le> n * m" by (intro mult_le_mono1) simp
  then have "i * m + k < length xs" using assms by simp
  then show ?thesis using assms by (simp add: rows_of_nth)
qed

lemma gram_rows_permuted:
  assumes rl: "\<forall>r\<in>set R. length r = m" and "distinct p" and "set p = {..<m}"
  shows "gram_rows (map (\<lambda>r. map ((!) r) p) R) k = gram_rows R k"
proof (rule nth_equalityI)
  show "length (gram_rows (map (\<lambda>r. map ((!) r) p) R) k) = length (gram_rows R k)"
    by simp
next
  fix i assume "i < length (gram_rows (map (\<lambda>r. map ((!) r) p) R) k)"
  then have i: "i < length R" by simp
  have "dot (map ((!) (R ! i)) p) (map ((!) (R ! j)) p) = dot (R ! i) (R ! j)" if "j < length R" for j
    using rl i that assms(2,3) by (intro dot_permuted [where m = m]) auto
  then show "gram_rows (map (\<lambda>r. map ((!) r) p) R) k ! i = gram_rows R k ! i"
    using i by (simp add: gram_rows_nth)
qed

lemma length_spatial_perm: "distinct p \<Longrightarrow> set p = {..<m} \<Longrightarrow> length p = m"
  using distinct_card [of p] by simp

lemma length_concat_uniform:
  "\<forall>r\<in>set rs. length r = m \<Longrightarrow> length (concat rs) = length rs * m"
  by (induction rs) auto

text \<open>
  Claim C8. For a well-formed rank-4 feature map and a permutation \<open>p\<close> of its
  \<open>height \<cdot> width\<close> spatial positions, applied to all channels alike, the Gram matrix of
  the permuted feature map is the Gram matrix of the original one.
\<close>

theorem gram_matrix_permute_spatial:
  assumes wf: "wf_tensor input" and sh: "shape input = [b, c, h, w]"
    and p: "distinct p" "set p = {..<h * w}"
  shows "gram_matrix (permute_spatial p input) = gram_matrix input"
proof -
  let ?R = "rows_of (b * c) (h * w) (data input)"
  let ?R' = "map (\<lambda>r. map ((!) r) p) ?R"
  have len: "length (data input) = b * c * h * w"
    using wf sh by (simp add: wf_tensor_def mult.assoc)
  have lp: "length p = h * w" using p by (rule length_spatial_perm)
  have rl: "\<forall>r\<in>set ?R. length r = h * w"
    using len rows_of_row_length [of "b * c" "h * w" "data input"] by (simp add: mult.assoc)
  have sh': "shape (permute_spatial p input) = [b, c, h, w]"
    and d': "data (permute_spatial p input) = concat ?R'"
    using sh by (simp_all add: permute_spatial_def)
  have rows': "rows_of (b * c) (h * w) (concat ?R') = ?R'"
    by (rule rows_of_concat) (simp_all add: lp)
  have len': "length (data (permute_spatial p input)) = b * c * h * w"
    unfolding d' using length_concat_uniform [of ?R' "h * w"] by (simp add: lp mult.assoc)
  have "gram_rows (rows_of (b * c) (h * w) (data (permute_spatial p input))) k = gram_rows ?R k" for k
    unfolding d' rows' using rl p by (rule gram_rows_permuted)
  then show ?thesis
    unfolding gram_matrix_rows [OF sh' len'] gram_matrix_rows [OF sh len] by simp
qed

theorem gram_matrix_permute_spatial_witness:
  "wf_tensor \<lparr>shape = [1, 2, 1, 2], data = [1, 2, 3, 4]\<rparr> \<and>
   distinct [1, 0 :: nat] \<and> set [1, 0 :: nat] = {..<1 * 2} \<and>
   permute_spatial [1, 0] \<lparr>shape = [1, 2, 1, 2], data = [1, 2, 3, 4]\<rparr>
     = \<lparr>shape = [1, 2, 1, 2], data = [2, 1, 4, 3]\<rparr> \<and>
   gram_matrix \<lparr>shape = [1, 2, 1, 2], data = [2, 1, 4, 3]\<rparr>
     = gram_matrix \<lparr>shape = [1, 2, 1, 2], data = [1, 2, 3, 4]\<rparr>"
proof -
  have wf: "wf_tensor \<lparr>shape = [1, 2, 1, 2], data = [1, 2, 3, 4]\<rparr>"
    by (simp add: wf_tensor_def)
  have d: "distinct [1, 0 :: nat]" by simp
  have s: "set [1, 0 :: nat] = {..<1 * 2}" by auto
  have p: "permute_spatial [1, 0] \<lparr>shape = [1, 2, 1, 2], data = [1, 2, 3, 4]\<rparr>
     = \<lparr>shape = [1, 2, 1, 2], data = [2, 1, 4, 3]\<rparr>"
    by code_simp
  show ?thesis
    using wf d s p gram_matrix_permute_spatial [OF wf _ d s, of 1 2] by simp
qed

text \<open>
  Claim C7, as stated, fails: a feature map with batch 2 and one channel has a Gram
  matrix of size \<open>2 \<times> 2\<close>, not \<open>1 \<times> 1\<close>.
\<close>

theorem gram_matrix_size_counterexample:
  "gram_matrix \<lparr>shape = [2, 1, 1, 1], data = [1, 2]\<rparr>
     = Inr \<lparr>shape = [2, 2], data = [1 / 2, 1, 1, 2]\<rparr>"
  by code_simp

text \<open>
  Claim C7, amended. For a well-formed feature map of dimensions
  \<open>(batch, channels, height, width)\<close>, \<open>gram_matrix\<close> returns the entries of \<open>F \<cdot> F\<^sup>T\<close> divided
  by \<open>batch \<cdot> channels \<cdot> height \<cdot> width\<close>, where \<open>F\<close> is the
  \<open>(batch \<cdot> channels) \<times> (height \<cdot> width)\<close> reshaping; the result is square of size
  \<open>(batch \<cdot> channels) \<times> (batch \<cdot> channels)\<close>, which is \<open>channels \<times> channels\<close> when the batch is 1.
\<close>

theorem gram_matrix_refines_spec:
  assumes wf: "wf_tensor input" and sh: "shape input = [b, c, h, w]"
  shows "\<exists>G. gram_matrix input = Inr G \<and> shape G = [b * c, b * c] \<and> wf_tensor G \<and>
           (\<forall>i<b * c. \<forall>j<b * c. data G ! (i * (b * c) + j) = gram_spec input i j) \<and>
           (b = 1 \<longrightarrow> shape G = [c, c])"
proof -
  let ?n = "b * c" and ?m = "h * w"
  let ?R = "rows_of ?n ?m (data input)"
  let ?k = "real (b * c * h * w)"
  let ?G = "\<lparr>shape = [?n, ?n], data = concat (gram_rows ?R ?k)\<rparr>"
  have len: "length (data input) = b * c * h * w"
    using wf sh by (simp add: wf_tensor_def mult.assoc)
  then have len2: "length (data input) = ?n * ?m" by (simp add: mult.assoc)
  have rl: "\<forall>r\<in>set ?R. length r = ?m"
    using len2 rows_of_row_length [of ?n ?m "data input"] by simp
  have g: "gram_matrix input = Inr ?G" by (rule gram_matrix_rows [OF sh len])
  have gl: "\<forall>r\<in>set (gram_rows ?R ?k). length r = ?n"
    by (auto simp: gram_rows_def)
  have wfG: "wf_tensor ?G"
    using length_concat_uniform [OF gl] by (simp add: wf_tensor_def)
  have entry: "data ?G ! (i * ?n + j) = gram_spec input i j" if i: "i < ?n" and j: "j < ?n" for i j
  proof -
    have "data ?G ! (i * ?n + j) = gram_rows ?R ?k ! i ! j"
      using nth_concat_uniform [OF gl, of i j] i j by simp
    also have "\<dots> = dot (?R ! i) (?R ! j) / ?k"
      using i j by (simp add: gram_rows_nth)
    also have "dot (?R ! i) (?R ! j) = (\<Sum>k<?m. ?R ! i ! k * (?R ! j ! k))"
      using rl i j by (intro dot_sum) auto
    also have "\<dots> = (\<Sum>k<?m. data input ! (i * ?m + k) * data input ! (j * ?m + k))"
      using i j len2 by (intro sum.cong) (auto simp: rows_of_nth_nth)
    finally show ?thesis using sh by (simp add: gram_spec_def)
  qed
  show ?thesis
    using g wfG entry by (intro exI [of _ ?G]) simp
qed

theorem gram_matrix_refines_spec_witness:
  "wf_tensor \<lparr>shape = [1, 2, 1, 2], data = [1, 2, 3, 4]\<rparr> \<and>
   gram_matrix \<lparr>shape = [1, 2, 1, 2], data = [1, 2, 3, 4]\<rparr>
     = Inr \<lparr>shape = [2, 2], data = [5 / 4, 11 / 4, 11 / 4, 25 / 4]\<rparr> \<and>
   wf_tensor \<lparr>shape = [2, 2], data = [5 / 4, 11 / 4, 11 / 4, 25 / 4]\<rparr> \<and>
   gram_spec \<lparr>shape = [1, 2, 1, 2], data = [1, 2, 3, 4]\<rparr> 0 1 = 11 / 4 \<and>
   gram_spec \<lparr>shape = [1, 2, 1, 2], data = [1, 2, 3, 4]\<rparr> 1 1 = 25 / 4"
proof -
  let ?X = "\<lparr>shape = [1, 2, 1, 2], data = [1, 2, 3, 4]\<rparr>"
  let ?G = "\<lparr>shape = [2, 2], data = [5 / 4, 11 / 4, 11 / 4, 25 / 4 :: real]\<rparr>"
  have wf: "wf_tensor ?X"
    by (simp add: wf_tensor_def)
  have g: "gram_matrix ?X = Inr ?G"
    by code_simp
  from gram_matrix_refines_spec [OF wf, of 1 2 1 2] g
  have G: "wf_tensor ?G"
    and e: "\<forall>i<1 * 2. \<forall>j<1 * 2. data ?G ! (i * (1 * 2) + j) = gram_spec ?X i j"
    by auto
  have "(0::nat) < 1 * 2" and "(1::nat) < 1 * 2" by simp_all
  with e have "data ?G ! (0 * (1 * 2) + 1) = gram_spec ?X 0 1"
    and "data ?G ! (1 * (1 * 2) + 1) = gram_spec ?X 1 1"
    by blast+
  then have "gram_spec ?X 0 1 = 11 / 4" and "gram_spec ?X 1 1 = 25 / 4"
    by (simp_all add: numeral_3_eq_3)
  then show ?thesis using wf g G by simp
qed

section \<open>Properties of the loss taps\<close>

lemma broadcast_shape_same: "broadcast_shape xs xs = Some xs"
  by (induction xs) simp_all

lemma expand_same: "length xs = prod_list sh \<Longrightarrow> expand sh sh xs = xs"
proof (induction sh arbitrary: xs)
  case Nil
  show ?case by simp
next
  case (Cons d ds)
  let ?n = "prod_list ds"
  have len: "length xs = d * ?n" using Cons.prems by simp
  have "expand ds ds r = r" if "r \<in> set (rows_of d ?n xs)" for r
  proof -
    from rows_of_row_length [of d ?n xs r] len that have "length r = ?n" by simp
    then show ?thesis by (rule Cons.IH)
  qed
  then have "map (expand ds ds) (rows_of d ?n xs) = rows_of d ?n xs"
    by (simp add: map_idI)
  with concat_rows_of [OF len] show ?case by simp
qed

lemma broadcast_tensors_same:
  assumes "shape a = shape b" and "wf_tensor a" and "wf_tensor b"
  shows "broadcast_tensors a b = Inr (a, b)"
proof -
  have "expand (shape b) (shape b) (data a) = data a"
    using assms by (intro expand_same) (simp add: wf_tensor_def)
  moreover have "expand (shape b) (shape b) (data b) = data b"
    using assms by (intro expand_same) (simp add: wf_tensor_def)
  moreover have "\<lparr>shape = shape b, data = data a\<rparr> = a"
    using assms(1) by (cases a) simp
  moreover have "\<lparr>shape = shape b, data = data b\<rparr> = b"
    by (cases b) simp
  ultimately show ?thesis
    using assms(1) by (simp add: broadcast_tensors_def broadcast_shape_same Let_def)
qed

lemma sum_list_map2:
  assumes "length xs = length ys"
  shows "sum_list (map2 f xs ys) = (\<Sum>k<length xs. f (xs ! k) (ys ! k))"
proof -
  have "sum_list (map2 f xs ys) = (\<Sum>k = 0..<length (map2 f xs ys). map2 f xs ys ! k)"
    by (rule sum_list_sum_nth)
  also have "\<dots> = (\<Sum>k = 0..<length xs. f (xs ! k) (ys ! k))"
    using assms by (intro sum.cong) auto
  finally show ?thesis by (simp add: lessThan_atLeast0)
qed

lemma mse_loss_same:
  assumes "shape a = shape b" and "wf_tensor a" and "wf_tensor b"
  shows "mse_loss a b = Inr (mean_squared_error (data a) (data b))"
proof -
  have "length (data a) = length (data b)"
    using assms by (simp add: wf_tensor_def)
  then have "sum_list (map2 (\<lambda>x y. (x - y)\<^sup>2) (data a) (data b))
      = (\<Sum>k<length (data a). (data a ! k - data b ! k)\<^sup>2)"
    by (rule sum_list_map2)
  then show ?thesis
    using broadcast_tensors_same [OF assms]
    by (simp add: mse_loss_def mean_squared_error_def bind_def)
qed

lemma gram_matrix_shape:
  assumes wf: "wf_tensor input" and sh: "shape input = [b, c, h, w]"
  shows "\<exists>G. gram_matrix input = Inr G \<and> shape G = [b * c, b * c] \<and> wf_tensor G"
proof -
  let ?R = "rows_of (b * c) (h * w) (data input)"
  let ?k = "real (b * c * h * w)"
  have len: "length (data input) = b * c * h * w"
    using wf sh by (simp add: wf_tensor_def mult.assoc)
  have gl: "\<forall>r\<in>set (gram_rows ?R ?k). length r = b * c"
    by (auto simp: gram_rows_def)
  have "wf_tensor \<lparr>shape = [b * c, b * c], data = concat (gram_rows ?R ?k)\<rparr>"
    using length_concat_uniform [OF gl] by (simp add: wf_tensor_def)
  with gram_matrix_rows [OF sh len] show ?thesis by simp
qed

lemma ContentLoss_forward_returns:
  "ContentLoss_forward self input = Inr (self', out) \<longleftrightarrow>
     out = input \<and> (\<exists>l. mse_loss input (target self) = Inr l \<and>
                        self' = ContentLoss (target self) (Some l))"
  by (cases "mse_loss input (target self)") (auto simp: ContentLoss_forward_def bind_def)

lemma StyleLoss_forward_returns:
  "StyleLoss_forward self input = Inr (self', out) \<longleftrightarrow>
     out = input \<and> (\<exists>G l. gram_matrix input = Inr G \<and> mse_loss G (target self) = Inr l \<and>
                          self' = StyleLoss (target self) (Some l))"
proof (cases "gram_matrix input")
  case (Inl e)
  then show ?thesis by (simp add: StyleLoss_forward_def bind_def)
next
  case (Inr G)
  then show ?thesis
    by (cases "mse_loss G (target self)") (auto simp: StyleLoss_forward_def bind_def)
qed

text \<open>
  Claim C2. \<open>ContentLoss.forward\<close> and \<open>StyleLoss.forward\<close> return their input unchanged and
  store a loss in the tap, whose target stays as it is: the mean squared error between the
  input and the target for a content tap, between the Gram matrix of the input and the
  target for a style tap. They return whenever that loss is defined: a content tap for
  every well-formed input of the shape of its target, a style tap for every well-formed
  feature map of dimensions \<open>(b, c, h, w)\<close> when its target is a matrix of size
  \<open>b \<cdot> c\<close>; the loss is then the mean of the squared differences of the elements. The
  target is fixed at construction: the tensor given for a content tap, the Gram matrix of
  the feature map given for a style tap; no loss is stored yet.
\<close>

theorem loss_taps_pass_through:
  "(ContentLoss_forward self input = Inr (self', out) \<longrightarrow>
      out = input \<and> target self' = target self \<and>
      (\<exists>l. loss self' = Some l \<and> mse_loss input (target self) = Inr l)) \<and>
   (StyleLoss_forward self input = Inr (self', out) \<longrightarrow>
      out = input \<and> target self' = target self \<and>
      (\<exists>G l. gram_matrix input = Inr G \<and> loss self' = Some l \<and>
             mse_loss G (target self) = Inr l)) \<and>
   (wf_tensor input \<and> wf_tensor (target self) \<and> shape input = shape (target self) \<longrightarrow>
      ContentLoss_forward self input =
        Inr (ContentLoss (target self)
               (Some (mean_squared_error (data input) (data (target self)))), input)) \<and>
   (wf_tensor input \<and> shape input = [b, c, h, w] \<and>
    wf_tensor (target self) \<and> shape (target self) = [b * c, b * c] \<longrightarrow>
      (\<exists>G. gram_matrix input = Inr G \<and>
           StyleLoss_forward self input =
             Inr (StyleLoss (target self)
                    (Some (mean_squared_error (data G) (data (target self)))), input))) \<and>
   target (ContentLoss_init t) = t \<and> loss (ContentLoss_init t) = None \<and>
   (StyleLoss_init f = Inr sl \<longrightarrow> gram_matrix f = Inr (target sl) \<and> loss sl = None)"
proof (intro conjI impI)
  assume "ContentLoss_forward self input = Inr (self', out)"
  then have "out = input \<and> (\<exists>l. mse_loss input (target self) = Inr l \<and>
                        self' = ContentLoss (target self) (Some l))"
    by (simp only: ContentLoss_forward_returns)
  then show "out = input" "target self' = target self"
    "\<exists>l. loss self' = Some l \<and> mse_loss input (target self) = Inr l"
    by auto
next
  assume "StyleLoss_forward self input = Inr (self', out)"
  then have "out = input \<and> (\<exists>G l. gram_matrix input = Inr G \<and> mse_loss G (target self) = Inr l \<and>
                          self' = StyleLoss (target self) (Some l))"
    by (simp only: StyleLoss_forward_returns)
  then show "out = input" "target self' = target self"
    "\<exists>G l. gram_matrix input = Inr G \<and> loss self' = Some l \<and> mse_loss G (target self) = Inr l"
    by auto
next
  assume "wf_tensor input \<and> wf_tensor (target self) \<and> shape input = shape (target self)"
  then have "mse_loss input (target self) = Inr (mean_squared_error (data input) (data (target self)))"
    by (intro mse_loss_same) simp_all
  then show "ContentLoss_forward self input =
        Inr (ContentLoss (target self)
               (Some (mean_squared_error (data input) (data (target self)))), input)"
    by (simp add: ContentLoss_forward_def bind_def)
next
  assume a: "wf_tensor input \<and> shape input = [b, c, h, w] \<and>
    wf_tensor (target self) \<and> shape (target self) = [b * c, b * c]"
  then obtain G where G: "gram_matrix input = Inr G" "shape G = [b * c, b * c]" "wf_tensor G"
    using gram_matrix_shape [of input b c h w] by blast
  with a have "mse_loss G (target self) = Inr (mean_squared_error (data G) (data (target self)))"
    by (intro mse_loss_same) simp_all
  with G show "\<exists>G. gram_matrix input = Inr G \<and>
           StyleLoss_forward self input =
             Inr (StyleLoss (target self)
                    (Some (mean_squared_error (data G) (data (target self)))), input)"
    by (simp add: StyleLoss_forward_def bind_def)
next
  show "target (ContentLoss_init t) = t" "loss (ContentLoss_init t) = None"
    by (simp_all add: ContentLoss_init_def)
next
  assume "StyleLoss_init f = Inr sl"
  then show "gram_matrix f = Inr (target sl)" "loss sl = None"
    by (cases "gram_matrix f"; auto simp: StyleLoss_init_def bind_def)+
qed

text \<open>
  A content tap with target \<open>[0, 1]\<close> and a style tap built from the feature map \<open>[1, 1]\<close>,
  both called on the feature map \<open>[1, 3]\<close>.
\<close>

theorem loss_taps_pass_through_witness:
  "ContentLoss_forward (ContentLoss \<lparr>shape = [1, 1, 1, 2], data = [0, 1]\<rparr> None)
     \<lparr>shape = [1, 1, 1, 2], data = [1, 3]\<rparr>
   = Inr (ContentLoss \<lparr>shape = [1, 1, 1, 2], data = [0, 1]\<rparr> (Some (5 / 2)),
          \<lparr>shape = [1, 1, 1, 2], data = [1, 3]\<rparr>) \<and>
   mean_squared_error [1, 3] [0, 1] = 5 / 2 \<and>
   StyleLoss_init \<lparr>shape = [1, 1, 1, 2], data = [1, 1]\<rparr>
   = Inr (StyleLoss \<lparr>shape = [1, 1], data = [1]\<rparr> None) \<and>
   gram_matrix \<lparr>shape = [1, 1, 1, 2], data = [1, 3]\<rparr> = Inr \<lparr>shape = [1, 1], data = [5]\<rparr> \<and>
   StyleLoss_forward (StyleLoss \<lparr>shape = [1, 1], data = [1]\<rparr> None)
     \<lparr>shape = [1, 1, 1, 2], data = [1, 3]\<rparr>
   = Inr (StyleLoss \<lparr>shape = [1, 1], data = [1]\<rparr> (Some 16),
          \<lparr>shape = [1, 1, 1, 2], data = [1, 3]\<rparr>)"
proof -
  let ?x = "\<lparr>shape = [1, 1, 1, 2], data = [1, 3 :: real]\<rparr>"
  let ?c = "ContentLoss \<lparr>shape = [1, 1, 1, 2], data = [0, 1]\<rparr> None"
  let ?s = "StyleLoss \<lparr>shape = [1, 1], data = [1]\<rparr> None"
  have wx: "wf_tensor ?x" and wc: "wf_tensor (target ?c)" and ws: "wf_tensor (target ?s)"
    by (simp_all add: wf_tensor_def)
  have m: "mean_squared_error [1, 3] [0, 1] = 5 / 2"
    by (simp add: mean_squared_error_def lessThan_Suc numeral_2_eq_2)
  have g: "gram_matrix ?x = Inr \<lparr>shape = [1, 1], data = [5]\<rparr>"
    by code_simp
  have i: "StyleLoss_init \<lparr>shape = [1, 1, 1, 2], data = [1, 1]\<rparr> = Inr ?s"
    by code_simp
  have m2: "mean_squared_error [5] [1] = 16"
    by (simp add: mean_squared_error_def)
  from loss_taps_pass_through [where self = ?c and input = ?x] wx wc have c: "ContentLoss_forward ?c ?x =
      Inr (ContentLoss (target ?c) (Some (mean_squared_error (data ?x) (data (target ?c)))), ?x)"
    by simp
  from loss_taps_pass_through [where self = ?s and input = ?x and b = 1 and c = 1 and h = 1 and w = 2]
    wx ws g
  have s: "StyleLoss_forward ?s ?x =
      Inr (StyleLoss (target ?s) (Some (mean_squared_error [5] (data (target ?s)))), ?x)"
    by auto
  from c s m m2 g i show ?thesis by simp
qed

section \<open>Properties of model assembly\<close>

lemma bind_Inl [simp]: "bind (Inl e) f = Inl e"
  by (simp add: bind_def)

lemma bind_Inr [simp]: "bind (Inr x) f = f x"
  by (simp add: bind_def)

lemma bind_eq_Inr: "bind m f = Inr y \<longleftrightarrow> (\<exists>x. m = Inr x \<and> f x = Inr y)"
  by (cases m) auto

lemma map_sum_Inr_D: "map_sum f g r = Inr y \<Longrightarrow> \<exists>x. r = Inr x \<and> g x = y"
  by (cases r) auto

lemma map_sum_Inl_D: "map_sum f g r = Inl y \<Longrightarrow> \<exists>x. r = Inl x \<and> f x = y"
  by (cases r) auto

lemma walk_append:
  "walk si ci cl sl (xs @ ys) s = bind (walk si ci cl sl xs s) (walk si ci cl sl ys)"
proof (induction xs arbitrary: s)
  case Nil
  show ?case by simp
next
  case (Cons a xs)
  show ?case by (cases "walk_step si ci cl sl a s") (simp_all add: Cons)
qed

lemma walk_step_Other:
  "walk_step si ci cl sl (Other cls f) s = Inl (RuntimeError (''Unrecognized layer: '' @ cls), s)"
  by (simp add: walk_step_def classify_def)

lemma evals_trim [simp]: "evals (trim s) = evals s"
  by (simp add: trim_def Let_def)

lemma walk_unrecognized:
  "walk si ci cl sl (pre @ Other cls f # post) s0 =
     bind (walk si ci cl sl pre s0) (\<lambda>s. Inl (RuntimeError (''Unrecognized layer: '' @ cls), s))"
  by (cases "walk si ci cl sl pre s0") (simp_all add: walk_append walk_step_Other)

text \<open>
  Claim C4, amended. For a feature extractor with a layer of unrecognized kind (\<open>pre\<close> are
  the layers before the first one), assembly raises and returns no model, and
  \<open>run_style_transfer\<close> raises the same error, so that no optimization step runs. If
  assembling the layers \<open>pre\<close> alone succeeds, the error is the unrecognized-layer error with
  the class name of the layer, raised after exactly the forward evaluations that the taps
  among \<open>pre\<close> required.
\<close>

theorem unrecognized_layer_aborts:
  "\<exists>e s. get_style_model_and_losses (pre @ Other cls f # post) mean' std' style_img content_img
             content_layers style_layers = Inl (e, s) \<and>
     (\<forall>sp. get_style_model_and_losses pre mean' std' style_img content_img
              content_layers style_layers = Inr sp \<longrightarrow>
           e = RuntimeError (''Unrecognized layer: '' @ cls) \<and> evals s = evals sp) \<and>
     (content_layers = content_layers_default \<and> style_layers = style_layers_default \<longrightarrow>
        run_style_transfer opt (pre @ Other cls f # post) mean' std' content_img style_img
          input_img' num_steps style_weight content_weight = Inl e)"
proof (cases "walk style_img content_img content_layers style_layers pre (assembly_init mean' std')")
  case (Inl es)
  obtain e s where es: "es = (e, s)" by (cases es)
  have g: "get_style_model_and_losses (pre @ Other cls f # post) mean' std' style_img content_img
             content_layers style_layers = Inl (e, s)"
    using Inl es by (simp add: get_style_model_and_losses_def walk_unrecognized)
  have p: "get_style_model_and_losses pre mean' std' style_img content_img
             content_layers style_layers = Inl (e, s)"
    using Inl es by (simp add: get_style_model_and_losses_def)
  show ?thesis
    using g p by (intro exI [of _ e] exI [of _ s]) (auto simp: run_style_transfer_def)
next
  case (Inr w)
  let ?e = "RuntimeError (''Unrecognized layer: '' @ cls)"
  have g: "get_style_model_and_losses (pre @ Other cls f # post) mean' std' style_img content_img
             content_layers style_layers = Inl (?e, w)"
    using Inr by (simp add: get_style_model_and_losses_def walk_unrecognized)
  have p: "get_style_model_and_losses pre mean' std' style_img content_img
             content_layers style_layers = Inr (trim w)"
    using Inr by (simp add: get_style_model_and_losses_def)
  show ?thesis
    using g p by (intro exI [of _ ?e] exI [of _ w]) (auto simp: run_style_transfer_def)
qed

text \<open>
  Claim C4, as stated, fails: with a convolution before the unrecognized layer, the style
  tap of \<open>conv_1\<close> has the model evaluated on the style image before the error is raised.
\<close>

theorem forward_evaluation_before_abort_counterexample:
  "map_sum (\<lambda>(e, s). (e, evals s)) (\<lambda>s. ())
     (get_style_model_and_losses [identity_conv, Other ''Dropout'' Inr] half_stats half_stats
        wide_img wide_img content_layers_default style_layers_default)
   = Inl (RuntimeError ''Unrecognized layer: Dropout'', 1)"
  by code_simp

text \<open>
  Two recognized layers, then a \<open>Flatten\<close>: one forward evaluation, then the error, which
  \<open>run_style_transfer\<close> hands on.
\<close>

theorem unrecognized_layer_aborts_witness:
  "map_sum fst evals
     (get_style_model_and_losses [identity_conv, ReLU True] half_stats half_stats
        wide_img wide_img content_layers_default style_layers_default)
   = Inr 1 \<and>
   map_sum (\<lambda>(e, s). (e, evals s)) evals
     (get_style_model_and_losses ([identity_conv, ReLU True] @ Other ''Flatten'' Inr # [MaxPool2d Inr])
        half_stats half_stats wide_img wide_img content_layers_default style_layers_default)
   = Inl (RuntimeError ''Unrecognized layer: Flatten'', 1) \<and>
   run_style_transfer stretching_optimizer
     ([identity_conv, ReLU True] @ Other ''Flatten'' Inr # [MaxPool2d Inr])
     half_stats half_stats wide_img wide_img wide_img 2 style_weight_default content_weight_default
   = Inl (RuntimeError ''Unrecognized layer: Flatten'')"
proof -
  let ?pre = "[identity_conv, ReLU True]"
  let ?G = "\<lambda>cnn. get_style_model_and_losses cnn half_stats half_stats
        wide_img wide_img content_layers_default style_layers_default"
  have p: "map_sum fst evals (?G ?pre) = Inr 1"
    by code_simp
  then obtain sp where sp: "?G ?pre = Inr sp" and ev: "evals sp = 1"
    by (auto dest!: map_sum_Inr_D)
  from unrecognized_layer_aborts [of ?pre "''Flatten''" Inr "[MaxPool2d Inr]" half_stats half_stats
      wide_img wide_img content_layers_default style_layers_default stretching_optimizer wide_img 2
      style_weight_default content_weight_default]
  obtain e s where
    g: "?G (?pre @ Other ''Flatten'' Inr # [MaxPool2d Inr]) = Inl (e, s)"
    and a: "\<forall>sp. ?G ?pre = Inr sp \<longrightarrow> e = RuntimeError (''Unrecognized layer: '' @ ''Flatten'') \<and> evals s = evals sp"
    and r: "run_style_transfer stretching_optimizer (?pre @ Other ''Flatten'' Inr # [MaxPool2d Inr])
       half_stats half_stats wide_img wide_img wide_img 2 style_weight_default content_weight_default = Inl e"
    by blast
  from a sp ev have "e = RuntimeError ''Unrecognized layer: Flatten''" and "evals s = 1"
    by auto
  with p g r show ?thesis by simp
qed

lemma add_module_in: "(n, m) \<in> set (add_module n m xs)"
  by (induction xs) auto

lemma add_module_keeps: "x \<in> set xs \<Longrightarrow> fst x \<noteq> n \<Longrightarrow> x \<in> set (add_module n m xs)"
  by (induction xs) auto

lemma add_module_subset: "set (add_module n m xs) \<subseteq> insert (n, m) (set xs)"
  by (induction xs) (auto split: if_splits)

lemma add_module_nonempty [simp]: "add_module n m xs \<noteq> []"
  by (cases xs) (auto split: if_splits)

lemma add_module_hd: "xs \<noteq> [] \<Longrightarrow> fst (hd xs) \<noteq> n \<Longrightarrow> hd (add_module n m xs) = hd xs"
  by (cases xs) auto

lemma not_tap_name_layer:
  "\<not> tap_name (''conv_'' @ k)" "\<not> tap_name (''relu_'' @ k)"
  "\<not> tap_name (''pool_'' @ k)" "\<not> tap_name (''bn_'' @ k)"
  by (simp_all add: tap_name_def)

lemma tap_name_loss:
  "tap_name (''content_loss_'' @ k)" "tap_name (''style_loss_'' @ k)"
  by (simp_all add: tap_name_def)

lemma layer_name_not_0:
  "''conv_'' @ k \<noteq> ''0''" "''relu_'' @ k \<noteq> ''0''" "''pool_'' @ k \<noteq> ''0''" "''bn_'' @ k \<noteq> ''0''"
  by simp_all

lemma classify_name:
  assumes "classify i l = Inr (i', name, l')"
  shows "\<not> tap_name name \<and> name \<noteq> ''0'' \<and> \<not> is_loss (Layer l')"
proof (cases l)
  case (Conv2d f)
  with assms have "name = ''conv_'' @ str_nat (i + 1)" by (auto simp: classify_def)
  then show ?thesis by (simp only: not_tap_name_layer layer_name_not_0 is_loss_def module.case) simp
next
  case (ReLU b)
  with assms have "name = ''relu_'' @ str_nat i" by (auto simp: classify_def)
  then show ?thesis by (simp only: not_tap_name_layer layer_name_not_0 is_loss_def module.case) simp
next
  case (MaxPool2d f)
  with assms have "name = ''pool_'' @ str_nat i" by (auto simp: classify_def)
  then show ?thesis by (simp only: not_tap_name_layer layer_name_not_0 is_loss_def module.case) simp
next
  case (BatchNorm2d f)
  with assms have "name = ''bn_'' @ str_nat i" by (auto simp: classify_def)
  then show ?thesis by (simp only: not_tap_name_layer layer_name_not_0 is_loss_def module.case) simp
next
  case (Other c f)
  with assms show ?thesis by (simp add: classify_def)
qed

lemma classify_recognized:
  "recognized l \<Longrightarrow> \<exists>i' name l'. classify i l = Inr (i', name, l')"
  by (cases l) (auto simp: classify_def recognized_def)

lemma tapped_add_layer:
  assumes "tapped s" and "\<not> tap_name name"
  shows "tapped (s\<lparr>conv_i := i, model := add_module name (Layer l) (model s)\<rparr>)"
proof -
  have keep: "x \<in> set (add_module name (Layer l) (model s))"
    if "x \<in> set (model s)" "is_loss (snd x)" for x
  proof -
    from assms(1) that have "tap_name (fst x)" by (auto simp: tapped_def)
    with assms(2) have "fst x \<noteq> name" by auto
    with that(1) show ?thesis by (rule add_module_keeps)
  qed
  have new: "tap_name (fst x)"
    if "x \<in> set (add_module name (Layer l) (model s))" "is_loss (snd x)" for x
  proof -
    from that(1) add_module_subset [of name "Layer l" "model s"]
    have "x = (name, Layer l) \<or> x \<in> set (model s)" by auto
    with that(2) assms(1) show ?thesis by (auto simp: is_loss_def tapped_def)
  qed
  show ?thesis
    using assms(1) keep new by (fastforce simp add: tapped_def)
qed

lemma tapped_add_tap:
  assumes "tapped s" and "tap_name name" and "model s' = add_module name (Tap a) (model s)"
  shows "tapped s'"
proof -
  have "(name, Tap a) \<in> set (model s')"
    using assms(3) by (simp add: add_module_in)
  then have ex: "\<exists>x\<in>set (model s'). is_loss (snd x)"
    by (force simp: is_loss_def)
  have "tap_name (fst x)" if "x \<in> set (model s')" "is_loss (snd x)" for x
  proof -
    from that(1) assms(3) add_module_subset [of name "Tap a" "model s"]
    have "x = (name, Tap a) \<or> x \<in> set (model s)" by auto
    with that(2) assms(1,2) show ?thesis by (auto simp: tapped_def)
  qed
  then show ?thesis using ex assms(3) by (simp add: tapped_def)
qed

lemma tapped_evals: "tapped s \<Longrightarrow> tapped (s\<lparr>evals := k\<rparr>)"
  by (simp add: tapped_def)

lemma tapped_add_content_loss:
  assumes "tapped s" and "add_content_loss content_img s = Inr s'"
  shows "tapped s'"
proof -
  have "\<exists>a. model s' = add_module (''content_loss_'' @ str_nat (conv_i s)) (Tap a) (model s)"
    using assms(2)
    by (auto simp: add_content_loss_def Let_def split: sum.splits prod.splits)
  then obtain a where
    m: "model s' = add_module (''content_loss_'' @ str_nat (conv_i s)) (Tap a) (model s)"
    by blast
  show ?thesis
    by (rule tapped_add_tap [OF assms(1) tap_name_loss(1) m])
qed

lemma tapped_add_style_loss:
  assumes "tapped s" and "add_style_loss style_img s = Inr s'"
  shows "tapped s'"
proof -
  have "\<exists>a. model s' = add_module (''style_loss_'' @ str_nat (conv_i s)) (Tap a) (model s)"
    using assms(2)
    by (auto simp: add_style_loss_def Let_def split: sum.splits prod.splits)
  then obtain a where
    m: "model s' = add_module (''style_loss_'' @ str_nat (conv_i s)) (Tap a) (model s)"
    by blast
  show ?thesis
    by (rule tapped_add_tap [OF assms(1) tap_name_loss(2) m])
qed

lemma tapped_walk_step:
  assumes "tapped s" and "walk_step si ci cl sl l s = Inr s'"
  shows "tapped s'"
proof -
  from assms(2) obtain i name l' where c: "classify (conv_i s) l = Inr (i, name, l')"
    by (auto simp: walk_step_def split: sum.splits)
  let ?s1 = "s\<lparr>conv_i := i, model := add_module name (Layer l') (model s)\<rparr>"
  have t1: "tapped ?s1"
    using assms(1) classify_name [OF c] by (intro tapped_add_layer) simp_all
  have "walk_step si ci cl sl l s =
          bind (if name \<in> set cl then add_content_loss ci ?s1 else Inr ?s1)
            (\<lambda>s2. if name \<in> set sl then add_style_loss si s2 else Inr s2)"
    using c by (simp add: walk_step_def)
  with assms(2) have "\<exists>s2. (if name \<in> set cl then add_content_loss ci ?s1 else Inr ?s1) = Inr s2 \<and>
      (if name \<in> set sl then add_style_loss si s2 else Inr s2) = Inr s'"
    by (simp only: bind_eq_Inr)
  then obtain s2 where
    s2: "(if name \<in> set cl then add_content_loss ci ?s1 else Inr ?s1) = Inr s2"
    and s': "(if name \<in> set sl then add_style_loss si s2 else Inr s2) = Inr s'"
    by blast
  have t2: "tapped s2"
    using s2 t1 tapped_add_content_loss [of ?s1 ci s2] by (auto split: if_splits)
  show ?thesis
    using s' t2 tapped_add_style_loss [of s2 si s'] by (auto split: if_splits)
qed

lemma tapped_walk:
  "tapped s \<Longrightarrow> walk si ci cl sl cnn s = Inr w \<Longrightarrow> tapped w"
proof (induction cnn arbitrary: s)
  case Nil
  then show ?case by simp
next
  case (Cons l cnn)
  from Cons.prems(2) obtain s1 where
    "walk_step si ci cl sl l s = Inr s1" and "walk si ci cl sl cnn s1 = Inr w"
    by (auto simp: bind_eq_Inr)
  with Cons.IH [of s1] Cons.prems(1) tapped_walk_step show ?case by blast
qed

lemma tapped_init: "tapped (assembly_init mean' std')"
  by (simp add: tapped_def assembly_init_def is_loss_def)

lemma trim_scan_le: "trim_scan m k \<le> k"
  by (induction k) auto

lemma trim_scan_found:
  "\<exists>j\<le>k. is_loss (snd (m ! j)) \<Longrightarrow> is_loss (snd (m ! trim_scan m k))"
proof (induction k)
  case 0
  then show ?case by simp
next
  case (Suc k)
  then show ?case by (auto simp: le_Suc_eq)
qed

lemma trim_scan_after:
  "trim_scan m k < j \<Longrightarrow> j \<le> k \<Longrightarrow> \<not> is_loss (snd (m ! j))"
proof (induction k)
  case 0
  then show ?case by simp
next
  case (Suc k)
  then show ?case by (auto simp: le_Suc_eq split: if_splits)
qed

lemma trim_scan_none:
  "\<forall>j\<le>k. \<not> is_loss (snd (m ! j)) \<Longrightarrow> trim_scan m k = 0"
  by (induction k) auto

lemma trim_fields [simp]:
  "style_losses (trim s) = style_losses s" "content_losses (trim s) = content_losses s"
  "store (trim s) = store s"
  by (simp_all add: trim_def Let_def)

lemma trim_cut:
  assumes "model w \<noteq> []"
  shows "\<exists>rest. model w = model (trim w) @ rest \<and> model (trim w) \<noteq> [] \<and>
           (\<forall>x\<in>set rest. \<not> is_loss (snd x)) \<and>
           ((\<exists>x\<in>set (model w). is_loss (snd x)) \<longrightarrow> is_loss (snd (last (model (trim w)))))"
proof -
  let ?m = "model w"
  let ?t = "trim_scan ?m (length ?m - 1)"
  have "0 < length ?m" using assms by simp
  with trim_scan_le [of ?m "length ?m - 1"] have t: "?t < length ?m" by arith
  have mt: "model (trim w) = take (Suc ?t) ?m"
    using assms by (simp add: trim_def)
  have last: "last (take (Suc ?t) ?m) = ?m ! ?t"
    using t by (simp add: take_Suc_conv_app_nth)
  have rest: "\<not> is_loss (snd x)" if "x \<in> set (drop (?t + 1) ?m)" for x
  proof -
    from that obtain j where j: "j < length ?m - (?t + 1)" and x: "x = ?m ! (?t + 1 + j)"
      by (auto simp: in_set_conv_nth)
    have "\<not> is_loss (snd (?m ! (?t + 1 + j)))"
      using j by (intro trim_scan_after [of ?m "length ?m - 1"]) simp_all
    with x show ?thesis by simp
  qed
  have found: "is_loss (snd (?m ! ?t))" if "\<exists>x\<in>set ?m. is_loss (snd x)"
  proof -
    from that obtain j where "j < length ?m" "is_loss (snd (?m ! j))"
      by (auto simp: in_set_conv_nth)
    then have "\<exists>j\<le>length ?m - 1. is_loss (snd (?m ! j))"
      by (intro exI [of _ j]) simp
    then show ?thesis by (rule trim_scan_found)
  qed
  have "?m = take (Suc ?t) ?m @ drop (Suc ?t) ?m" by simp
  moreover have "take (Suc ?t) ?m \<noteq> []" using assms by auto
  moreover have "\<forall>x\<in>set (drop (Suc ?t) ?m). \<not> is_loss (snd x)" using rest by simp
  moreover have "(\<exists>x\<in>set ?m. is_loss (snd x)) \<longrightarrow> is_loss (snd (last (take (Suc ?t) ?m)))"
    using found unfolding last by blast
  ultimately show ?thesis
    unfolding mt by blast
qed

text \<open>
  Claim C3, as stated, fails when the walk inserts no tap: with the default tap names and a
  feature extractor without convolution, the returned model is the normalization alone,
  and its final layer is not a loss tap.
\<close>

theorem model_without_tap_counterexample:
  "map_sum fst (\<lambda>s. (map fst (model s), is_loss (snd (last (model s)))))
     (get_style_model_and_losses [ReLU True, MaxPool2d Inr] half_stats half_stats
        wide_img wide_img content_layers_default style_layers_default)
   = Inr ([''0''], False)"
  by code_simp

text \<open>
  Claim C3, amended. Whenever assembly returns and has inserted at least one loss tap
  (one of the two lists of losses is not empty), the returned model is the model of the
  walk cut right after its last tap: its final layer is a tap, and none of the modules
  cut off is a tap.
\<close>

theorem assembled_model_ends_with_tap:
  assumes "get_style_model_and_losses cnn mean' std' style_img content_img
             content_layers style_layers = Inr s"
    and "style_losses s \<noteq> [] \<or> content_losses s \<noteq> []"
  shows "\<exists>w rest. walk style_img content_img content_layers style_layers cnn
                     (assembly_init mean' std') = Inr w \<and>
           model w = model s @ rest \<and> model s \<noteq> [] \<and>
           is_loss (snd (last (model s))) \<and> (\<forall>x\<in>set rest. \<not> is_loss (snd x))"
proof -
  from assms(1) obtain w where
    w: "walk style_img content_img content_layers style_layers cnn (assembly_init mean' std') = Inr w"
    and s: "s = trim w"
    by (auto simp: get_style_model_and_losses_def bind_eq_Inr)
  have tw: "tapped w" using tapped_init w by (rule tapped_walk)
  then have ne: "model w \<noteq> []" by (simp add: tapped_def)
  have "\<exists>x\<in>set (model w). is_loss (snd x)"
    using tw assms(2) s by (simp add: tapped_def)
  with trim_cut [OF ne] w s show ?thesis by auto
qed

text \<open>
  An assembly with two style taps: the walk ends with a pooling layer, which the returned
  model no longer has.
\<close>

theorem assembled_model_ends_with_tap_witness:
  "map_sum fst (\<lambda>s. (map fst (model s), style_losses s))
     (get_style_model_and_losses [identity_conv, ReLU True, identity_conv, MaxPool2d Inr]
        half_stats half_stats wide_img wide_img content_layers_default style_layers_default)
   = Inr ([''0'', ''conv_1'', ''style_loss_1'', ''relu_1'', ''conv_2'', ''style_loss_2''], [0, 1]) \<and>
   map_sum fst (\<lambda>s. is_loss (snd (last (model s))))
     (get_style_model_and_losses [identity_conv, ReLU True, identity_conv, MaxPool2d Inr]
        half_stats half_stats wide_img wide_img content_layers_default style_layers_default)
   = Inr True \<and>
   map_sum fst (\<lambda>w. map fst (model w))
     (walk wide_img wide_img content_layers_default style_layers_default
        [identity_conv, ReLU True, identity_conv, MaxPool2d Inr] (assembly_init half_stats half_stats))
   = Inr [''0'', ''conv_1'', ''style_loss_1'', ''relu_1'', ''conv_2'', ''style_loss_2'', ''pool_2'']"
proof -
  let ?G = "get_style_model_and_losses [identity_conv, ReLU True, identity_conv, MaxPool2d Inr]
        half_stats half_stats wide_img wide_img content_layers_default style_layers_default"
  have g: "map_sum fst (\<lambda>s. (map fst (model s), style_losses s)) ?G
     = Inr ([''0'', ''conv_1'', ''style_loss_1'', ''relu_1'', ''conv_2'', ''style_loss_2''], [0, 1])"
    by code_simp
  then obtain s where s: "?G = Inr s" and sl: "style_losses s = [0, 1]"
    by (auto dest!: map_sum_Inr_D)
  from sl have "style_losses s \<noteq> [] \<or> content_losses s \<noteq> []" by simp
  from assembled_model_ends_with_tap [OF s this]
  have "is_loss (snd (last (model s)))" by blast
  then have l: "map_sum fst (\<lambda>s. is_loss (snd (last (model s)))) ?G = Inr True"
    unfolding s by simp
  have w: "map_sum fst (\<lambda>w. map fst (model w))
     (walk wide_img wide_img content_layers_default style_layers_default
        [identity_conv, ReLU True, identity_conv, MaxPool2d Inr] (assembly_init half_stats half_stats))
   = Inr [''0'', ''conv_1'', ''style_loss_1'', ''relu_1'', ''conv_2'', ''style_loss_2'', ''pool_2'']"
    by code_simp
  from g l w show ?thesis by (intro conjI)
qed

lemma untapped_walk_step:
  assumes u: "untapped nz s" and c: "classify (conv_i s) l = Inr (i, name, l')"
    and n: "name \<notin> set cl" "name \<notin> set sl"
  shows "\<exists>s'. walk_step si ci cl sl l s = Inr s' \<and> untapped nz s' \<and> conv_i s' = i"
proof -
  let ?s1 = "s\<lparr>conv_i := i, model := add_module name (Layer l') (model s)\<rparr>"
  have w: "walk_step si ci cl sl l s = Inr ?s1"
    using c n by (simp add: walk_step_def)
  have nm: "name \<noteq> ''0''" and nl: "\<not> is_loss (Layer l')"
    using classify_name [OF c] by simp_all
  have hd: "hd (add_module name (Layer l') (model s)) = (''0'', Norm nz)"
    using u nm by (simp add: untapped_def add_module_hd)
  have "\<not> is_loss (snd x)" if "x \<in> set (add_module name (Layer l') (model s))" for x
  proof -
    from that add_module_subset [of name "Layer l'" "model s"]
    have "x = (name, Layer l') \<or> x \<in> set (model s)" by auto
    with nl u show ?thesis by (auto simp: untapped_def)
  qed
  with u hd have "untapped nz ?s1" by (simp add: untapped_def)
  with w show ?thesis by simp
qed

lemma untapped_walk:
  assumes "\<forall>l\<in>set cnn. recognized l"
    and "set (layer_names (conv_i s) cnn) \<inter> (set cl \<union> set sl) = {}"
    and "untapped nz s"
  shows "\<exists>w. walk si ci cl sl cnn s = Inr w \<and> untapped nz w"
  using assms
proof (induction cnn arbitrary: s)
  case Nil
  then show ?case by simp
next
  case (Cons l cnn)
  from Cons.prems(1) have "recognized l" by simp
  then obtain i name l' where c: "classify (conv_i s) l = Inr (i, name, l')"
    using classify_recognized by blast
  with Cons.prems(2) have n: "name \<notin> set cl" "name \<notin> set sl"
    and rest: "set (layer_names i cnn) \<inter> (set cl \<union> set sl) = {}"
    by auto
  from untapped_walk_step [OF Cons.prems(3) c n] obtain s' where
    s': "walk_step si ci cl sl l s = Inr s'" "untapped nz s'" "conv_i s' = i"
    by blast
  from Cons.IH [of s'] Cons.prems(1) rest s' obtain w where
    "walk si ci cl sl cnn s' = Inr w" "untapped nz w" by auto
  with s' show ?case by simp
qed

lemma untapped_trim:
  assumes "untapped nz w"
  shows "model (trim w) = [(''0'', Norm nz)]"
proof -
  have ne: "model w \<noteq> []" using assms by (simp add: untapped_def)
  have "\<forall>j\<le>length (model w) - 1. \<not> is_loss (snd (model w ! j))"
  proof (intro allI impI)
    fix j assume "j \<le> length (model w) - 1"
    with ne have "j < length (model w)" by (cases "model w") auto
    then have "model w ! j \<in> set (model w)" by simp
    with assms show "\<not> is_loss (snd (model w ! j))" by (simp add: untapped_def)
  qed
  then have "trim_scan (model w) (length (model w) - 1) = 0"
    by (rule trim_scan_none)
  moreover have "take (Suc 0) (model w) = [hd (model w)]"
    using assms by (cases "model w") (auto simp: untapped_def)
  ultimately show ?thesis using assms by (simp add: trim_def untapped_def)
qed

text \<open>
  Claim C10, as stated, fails for a feature extractor with a layer of unrecognized kind: no
  name is given to a layer, so no tap name matches, and the walk raises.
\<close>

theorem unrecognized_layer_without_taps_counterexample:
  "layer_names 0 [Other ''Dropout'' Inr] = [] \<and>
   map_sum fst (\<lambda>s. map fst (model s))
     (get_style_model_and_losses [Other ''Dropout'' Inr] half_stats half_stats
        wide_img wide_img content_layers_default style_layers_default)
   = Inl (RuntimeError ''Unrecognized layer: Dropout'')"
  by code_simp

text \<open>
  Claim C10, amended. If every layer of the feature extractor is of a recognized kind and
  no name that the walk gives to a layer is in the content-tap or the style-tap set,
  \<open>get_style_model_and_losses\<close> raises no error and returns the model that consists of the
  normalization module alone, with empty lists of style and content losses; no forward
  evaluation has taken place.
\<close>

theorem no_taps_model_is_normalization:
  assumes "\<forall>l\<in>set cnn. recognized l"
    and "set (layer_names 0 cnn) \<inter> (set content_layers \<union> set style_layers) = {}"
  shows "\<exists>s. get_style_model_and_losses cnn mean' std' style_img content_img
               content_layers style_layers = Inr s \<and>
           model s = [(''0'', Norm (Normalization_init mean' std'))] \<and>
           style_losses s = [] \<and> content_losses s = [] \<and> evals s = 0"
proof -
  let ?nz = "Normalization_init mean' std'"
  have u0: "untapped ?nz (assembly_init mean' std')"
    by (simp add: untapped_def assembly_init_def is_loss_def)
  have c0: "conv_i (assembly_init mean' std') = 0"
    by (simp add: assembly_init_def)
  from untapped_walk [OF assms(1) _ u0, of content_layers style_layers style_img content_img]
    assms(2) c0
  obtain w where w: "walk style_img content_img content_layers style_layers cnn
      (assembly_init mean' std') = Inr w" and u: "untapped ?nz w"
    by auto
  have "get_style_model_and_losses cnn mean' std' style_img content_img
               content_layers style_layers = Inr (trim w)"
    using w by (simp add: get_style_model_and_losses_def)
  moreover have "model (trim w) = [(''0'', Norm ?nz)]" using u by (rule untapped_trim)
  ultimately show ?thesis using u by (simp add: untapped_def)
qed

text \<open>A feature extractor without convolution, with the default tap names.\<close>

theorem no_taps_model_is_normalization_witness:
  "list_all recognized [ReLU True, MaxPool2d Inr] \<and>
   layer_names 0 [ReLU True, MaxPool2d Inr] = [''relu_0'', ''pool_0''] \<and>
   map_sum fst (\<lambda>s. (map fst (model s), style_losses s, content_losses s, evals s))
     (get_style_model_and_losses [ReLU True, MaxPool2d Inr] half_stats half_stats
        wide_img wide_img content_layers_default style_layers_default)
   = Inr ([''0''], [], [], 0)"
proof -
  have r: "\<forall>l\<in>set [ReLU True, MaxPool2d Inr]. recognized l"
    by (simp add: recognized_def)
  have n: "layer_names 0 [ReLU True, MaxPool2d Inr] = [''relu_0'', ''pool_0'']"
    by code_simp
  have d: "set (layer_names 0 [ReLU True, MaxPool2d Inr]) \<inter>
           (set content_layers_default \<union> set style_layers_default) = {}"
    unfolding n by (simp add: content_layers_default_def style_layers_default_def)
  from no_taps_model_is_normalization [OF r d, of half_stats half_stats wide_img wide_img]
  show ?thesis using r n by (auto simp: list_all_iff)
qed

lemma walk_step_no_content:
  "walk_step si ci [] sl l s = walk_step si ci' [] sl l s"
  by (simp add: walk_step_def split: sum.splits prod.splits)

lemma walk_step_no_style:
  "walk_step si ci cl [] l s = walk_step si' ci cl [] l s"
  by (simp add: walk_step_def split: sum.splits prod.splits)

lemma walk_no_content: "walk si ci [] sl cnn s = walk si ci' [] sl cnn s"
proof (induction cnn arbitrary: s)
  case Nil
  show ?case by simp
next
  case (Cons l cnn)
  show ?case
    by (cases "walk_step si ci' [] sl l s") (simp_all add: walk_step_no_content [of si ci sl l s ci'] Cons)
qed

lemma walk_no_style: "walk si ci cl [] cnn s = walk si' ci cl [] cnn s"
proof (induction cnn arbitrary: s)
  case Nil
  show ?case by simp
next
  case (Cons l cnn)
  show ?case
    by (cases "walk_step si' ci cl [] l s") (simp_all add: walk_step_no_style [of si ci cl l s si'] Cons)
qed

text \<open>
  Claim C9, as stated, fails: with the default tap names, a content image of \<open>1 \<times> 2\<close>
  pixels and a style image of \<open>2 \<times> 2\<close> pixels, assembly returns a model with a content tap
  and three style taps, and \<open>run_style_transfer\<close> returns an image.
\<close>

theorem different_resolutions_accepted_counterexample:
  "shape wide_img \<noteq> shape square_img \<and>
   map_sum fst (\<lambda>s. map fst (model s))
     (get_style_model_and_losses [identity_conv, identity_conv, identity_conv] half_stats half_stats
        square_img wide_img content_layers_default style_layers_default)
   = Inr [''0'', ''conv_1'', ''style_loss_1'', ''conv_2'', ''style_loss_2'', ''conv_3'',
          ''content_loss_3'', ''style_loss_3''] \<and>
   run_style_transfer stretching_optimizer [identity_conv, identity_conv, identity_conv]
     half_stats half_stats wide_img square_img wide_img 2 style_weight_default content_weight_default
   = Inr \<lparr>shape = [1, 1, 1, 2], data = [0, 1]\<rparr>"
  by code_simp

text \<open>
  Claim C9, amended. The program has no shape-mismatch error and compares the two images
  nowhere. With no content tap configured, the result of assembly, error or not, does not
  depend on the content image; with no style tap configured, it does not depend on the
  style image.
\<close>

theorem assembly_checks_no_resolution:
  "get_style_model_and_losses cnn mean' std' style_img content_img [] style_layers =
     get_style_model_and_losses cnn mean' std' style_img content_img' [] style_layers \<and>
   get_style_model_and_losses cnn mean' std' style_img content_img content_layers [] =
     get_style_model_and_losses cnn mean' std' style_img' content_img content_layers []"
  by (simp add: get_style_model_and_losses_def
        walk_no_content [of style_img content_img style_layers cnn _ content_img']
        walk_no_style [of style_img content_img content_layers cnn _ style_img'])

section \<open>Properties of the optimization loop\<close>

lemma closure_steps:
  "closure asm sw cw s = Inr (l, s') \<Longrightarrow> steps s' = steps s"
  by (auto simp: closure_def Let_def split: sum.splits prod.splits score.splits if_splits)

lemma closure_raise:
  "closure asm sw cw s = Inl (e, s') \<Longrightarrow> steps s' = steps s \<and> run s \<le> run s'"
  by (auto simp: closure_def Let_def split: sum.splits prod.splits score.splits if_splits)

lemma lbfgs_after_eval_state:
  assumes "\<And>s l s'. cl s = Inr (l, s') \<Longrightarrow> steps s' = steps s \<and> run s \<le> run s'"
    and "\<And>s e s'. cl s = Inl (e, s') \<Longrightarrow> steps s' = steps s \<and> run s \<le> run s'"
  shows "steps (outcome_state (lbfgs_after_eval opt cl fuel l s)) = steps s \<and>
         run s \<le> run (outcome_state (lbfgs_after_eval opt cl fuel l s))"
proof (induction fuel arbitrary: l s)
  case 0
  show ?case by (simp add: outcome_state_def split: prod.splits)
next
  case (Suc fuel)
  obtain m img again where adv: "advance opt (memory s) l (input_img s) = (m, img, again)"
    by (cases "advance opt (memory s) l (input_img s)") auto
  let ?s = "s\<lparr>memory := m, input_img := img\<rparr>"
  show ?case
  proof (cases again)
    case False
    with adv show ?thesis by (simp add: outcome_state_def)
  next
    case True
    show ?thesis
    proof (cases "cl ?s")
      case (Inl es)
      obtain e s1 where "es = (e, s1)" by (cases es)
      with Inl assms(2) [of ?s e s1] adv True show ?thesis
        by (simp add: outcome_state_def)
    next
      case (Inr ls)
      obtain l1 s1 where ls: "ls = (l1, s1)" by (cases ls)
      from Inr ls assms(1) [of ?s l1 s1] have "steps s1 = steps s" "run s \<le> run s1" by simp_all
      moreover from Suc.IH [of l1 s1]
      have "steps (outcome_state (lbfgs_after_eval opt cl fuel l1 s1)) = steps s1"
        and "run s1 \<le> run (outcome_state (lbfgs_after_eval opt cl fuel l1 s1))" by simp_all
      ultimately show ?thesis using Inr ls adv True by simp
    qed
  qed
qed

lemma lbfgs_step_state:
  "steps (outcome_state (lbfgs_step opt (closure asm sw cw) s)) = steps s \<and>
   run s \<le> run (outcome_state (lbfgs_step opt (closure asm sw cw) s))"
proof (cases "closure asm sw cw s")
  case (Inl es)
  obtain e s1 where "es = (e, s1)" by (cases es)
  with Inl closure_raise [of asm sw cw s e s1] show ?thesis
    by (simp add: lbfgs_step_def outcome_state_def)
next
  case (Inr ls)
  obtain l1 s1 where ls: "ls = (l1, s1)" by (cases ls)
  have a: "steps (outcome_state (lbfgs_after_eval opt (closure asm sw cw) (max_eval opt - 1) l1 s1)) = steps s1 \<and>
        run s1 \<le> run (outcome_state (lbfgs_after_eval opt (closure asm sw cw) (max_eval opt - 1) l1 s1))"
    by (rule lbfgs_after_eval_state) (auto simp: closure_steps closure_run dest: closure_raise)
  from Inr ls have "steps s1 = steps s" "run s1 = run s + 1"
    by (simp_all add: closure_steps closure_run)
  with a Inr ls show ?thesis by (simp add: lbfgs_step_def)
qed

lemma optimize_bounds:
  "int (steps (outcome_state (optimize opt asm sw cw num_steps s))) - int (steps s)
     \<le> max 0 (num_steps + 1 - run s) \<and>
   int (steps (outcome_state (optimize opt asm sw cw num_steps s))) - int (steps s)
     \<le> run (outcome_state (optimize opt asm sw cw num_steps s)) - run s \<and>
   steps s \<le> steps (outcome_state (optimize opt asm sw cw num_steps s))"
proof (induction opt asm sw cw num_steps s rule: optimize.induct)
  case (1 opt asm sw cw num_steps s)
  show ?case
  proof (cases "run s \<le> num_steps")
    case False
    then have "optimize opt asm sw cw num_steps s = Inr s"
      by (subst optimize.simps) simp
    then show ?thesis by (simp add: outcome_state_def)
  next
    case True
    note st = lbfgs_step_state [of opt asm sw cw s]
    show ?thesis
    proof (cases "lbfgs_step opt (closure asm sw cw) s")
      case (Inl es)
      obtain e s1 where es: "es = (e, s1)" by (cases es)
      have "optimize opt asm sw cw num_steps s = Inl (e, s1)"
        by (subst optimize.simps) (simp add: True Inl es)
      moreover from st Inl es have "steps s1 = steps s" "run s \<le> run s1"
        by (simp_all add: outcome_state_def)
      ultimately show ?thesis by (simp add: outcome_state_def)
    next
      case (Inr s1)
      let ?s2 = "s1\<lparr>steps := steps s1 + 1\<rparr>"
      have o: "optimize opt asm sw cw num_steps s = optimize opt asm sw cw num_steps ?s2"
        by (subst optimize.simps) (simp add: True Inr)
      from st Inr have s1: "steps s1 = steps s" by (simp add: outcome_state_def)
      from lbfgs_step_run [OF Inr] have r: "run s < run s1" .
      from "1.IH" [OF True Inr]
      have "int (steps (outcome_state (optimize opt asm sw cw num_steps ?s2))) - int (steps ?s2)
              \<le> max 0 (num_steps + 1 - run ?s2)"
        and "int (steps (outcome_state (optimize opt asm sw cw num_steps ?s2))) - int (steps ?s2)
              \<le> run (outcome_state (optimize opt asm sw cw num_steps ?s2)) - run ?s2"
        and "steps ?s2 \<le> steps (outcome_state (optimize opt asm sw cw num_steps ?s2))"
        by simp_all
      with s1 r True show ?thesis unfolding o by simp
    qed
  qed
qed

lemma optimize_returns_past_cap:
  "optimize opt asm sw cw num_steps s = Inr sf \<Longrightarrow> num_steps < run sf"
proof (induction opt asm sw cw num_steps s rule: optimize.induct)
  case (1 opt asm sw cw num_steps s)
  show ?case
  proof (cases "run s \<le> num_steps")
    case False
    with "1.prems" show ?thesis by (subst (asm) optimize.simps) simp
  next
    case True
    from "1.prems" have "(case lbfgs_step opt (closure asm sw cw) s of Inl es \<Rightarrow> Inl es
        | Inr s' \<Rightarrow> optimize opt asm sw cw num_steps (s'\<lparr>steps := steps s' + 1\<rparr>)) = Inr sf"
      by (subst (asm) optimize.simps) (simp add: True)
    then obtain s1 where s1: "lbfgs_step opt (closure asm sw cw) s = Inr s1"
      and o: "optimize opt asm sw cw num_steps (s1\<lparr>steps := steps s1 + 1\<rparr>) = Inr sf"
      by (auto split: sum.splits)
    from "1.IH" [OF True s1 o] show ?thesis .
  qed
qed

text \<open>
  Claim C6, as stated, fails: with an optimizer that evaluates the closure twice per step
  and a maximum of 0, the loop performs one step, which is more than the maximum, and
  that one step advances the counter to 2.
\<close>

theorem two_evaluations_one_step_counterexample:
  "map_sum fst
     (\<lambda>asm. map_sum fst (\<lambda>s. (run s, steps s))
        (optimize two_evaluation_optimizer asm style_weight_default content_weight_default 0
           (run_state_init two_evaluation_optimizer asm wide_img)))
     (get_style_model_and_losses [identity_conv] half_stats half_stats
        wide_img wide_img content_layers_default style_layers_default)
   = Inr (Inr (2, 1))"
  by code_simp

text \<open>
  Claim C6, amended. Every evaluation of the closure that returns, whether it is the first
  of a step or one the optimizer makes later in the step, adds one to the counter. The loop
  repeats while the counter does not exceed the configured maximum; from a counter \<open>run\<close> it
  completes at most \<open>num_steps + 1 - run\<close> steps (none if that is negative), never more steps
  than the counter has advanced, and when it returns the counter exceeds the maximum.
\<close>

theorem counter_counts_closure_evaluations:
  "(closure asm sw cw s = Inr (l, s') \<longrightarrow> run s' = run s + 1) \<and>
   int (steps (outcome_state (optimize opt asm sw cw num_steps s))) - int (steps s)
     \<le> max 0 (num_steps + 1 - run s) \<and>
   int (steps (outcome_state (optimize opt asm sw cw num_steps s))) - int (steps s)
     \<le> run (outcome_state (optimize opt asm sw cw num_steps s)) - run s \<and>
   (optimize opt asm sw cw num_steps s = Inr sf \<longrightarrow> num_steps < run sf)"
  using optimize_bounds [of opt asm sw cw num_steps s] optimize_returns_past_cap [of opt asm sw cw num_steps s sf]
    closure_run [of asm sw cw s l s']
  by blast

text \<open>
  One evaluation of the closure moves the counter from 0 to 1; with a maximum of 2 and one
  evaluation per step the loop returns after three steps with the counter at 3.
\<close>

theorem counter_counts_closure_evaluations_witness:
  "map_sum fst
     (\<lambda>asm. map_sum fst (\<lambda>(l, s). run s)
        (closure asm style_weight_default content_weight_default
           (run_state_init stretching_optimizer asm wide_img)))
     (get_style_model_and_losses [identity_conv] half_stats half_stats
        wide_img wide_img content_layers_default style_layers_default)
   = Inr (Inr 1) \<and>
   map_sum fst
     (\<lambda>asm. map_sum fst (\<lambda>s. (run s, steps s))
        (optimize stretching_optimizer asm style_weight_default content_weight_default 2
           (run_state_init stretching_optimizer asm wide_img)))
     (get_style_model_and_losses [identity_conv] half_stats half_stats
        wide_img wide_img content_layers_default style_layers_default)
   = Inr (Inr (3, 3)) \<and> (2 :: int) < 3"
proof -
  let ?G = "get_style_model_and_losses [identity_conv] half_stats half_stats
        wide_img wide_img content_layers_default style_layers_default"
  have c: "map_sum fst
     (\<lambda>asm. map_sum fst (\<lambda>(l, s). run s)
        (closure asm style_weight_default content_weight_default
           (run_state_init stretching_optimizer asm wide_img))) ?G = Inr (Inr 1)"
    by code_simp
  have o: "map_sum fst
     (\<lambda>asm. map_sum fst (\<lambda>s. (run s, steps s))
        (optimize stretching_optimizer asm style_weight_default content_weight_default 2
           (run_state_init stretching_optimizer asm wide_img))) ?G = Inr (Inr (3, 3))"
    by code_simp
  from o obtain asm where asm: "?G = Inr asm"
    by (auto dest!: map_sum_Inr_D)
  from o asm obtain sf where sf: "optimize stretching_optimizer asm style_weight_default
       content_weight_default 2 (run_state_init stretching_optimizer asm wide_img) = Inr sf"
    and rs: "run sf = 3"
    by (auto dest!: map_sum_Inr_D)
  from counter_counts_closure_evaluations [of asm style_weight_default content_weight_default
      "run_state_init stretching_optimizer asm wide_img" _ _ stretching_optimizer 2 sf] sf
  have "2 < run sf" by blast
  with rs c o show ?thesis by simp
qed

lemma clamp_range: "x \<in> set (data (clamp 0 1 t)) \<Longrightarrow> 0 \<le> x \<and> x \<le> 1"
  by (auto simp: clamp_def)

text \<open>
  Claim C5. Every pixel of the image that \<open>run_style_transfer\<close> returns lies in \<open>[0, 1]\<close>,
  whatever the optimizer did to the working image. (The loop is a total function: a run
  either raises or returns.)
\<close>

theorem run_style_transfer_clamped:
  assumes "run_style_transfer opt cnn mean' std' content_img style_img input_img' num_steps
             style_weight content_weight = Inr img"
  shows "\<forall>x\<in>set (data img). 0 \<le> x \<and> x \<le> 1"
proof -
  from assms have "\<exists>t. img = clamp 0 1 t"
    by (auto simp: run_style_transfer_def Let_def split: sum.splits prod.splits)
  then show ?thesis using clamp_range by blast
qed

text \<open>
  A run that returns: the optimizer moves the pixels \<open>1/4\<close> and \<open>3/4\<close> to \<open>-1/4\<close> and \<open>5/4\<close>,
  the image returned has the pixels 0 and 1.
\<close>

theorem run_style_transfer_clamped_witness:
  "run_style_transfer stretching_optimizer [identity_conv, identity_conv, identity_conv]
     half_stats half_stats wide_img wide_img wide_img 2 style_weight_default content_weight_default
   = Inr \<lparr>shape = [1, 1, 1, 2], data = [0, 1]\<rparr> \<and>
   list_all (\<lambda>x. 0 \<le> x \<and> x \<le> 1) (data \<lparr>shape = [1, 1, 1, 2], data = [0, 1 :: real]\<rparr>)"
proof -
  have r: "run_style_transfer stretching_optimizer [identity_conv, identity_conv, identity_conv]
     half_stats half_stats wide_img wide_img wide_img 2 style_weight_default content_weight_default
   = Inr \<lparr>shape = [1, 1, 1, 2], data = [0, 1]\<rparr>"
    by code_simp
  from run_style_transfer_clamped [OF r] r show ?thesis
    by (simp add: list_all_iff)
qed

end
